theory Spec2Isabelle
  imports Complex_Main "HOL-Library.Sublist" "HOL-Library.AList"
begin

chapter \<open>The program\<close>

section \<open>Retry/feedback orchestrator: \<open>ClaudeFlowAdapter.orchestrate\<close>\<close>

text \<open>
  The source is an ES module, hence strict-mode JavaScript. A \<open>throw\<close> (or a rejected
  promise that is awaited) is the left summand of a sum type. Wall-clock readings
  (\<open>responseTime\<close>, \<open>averageTaskTime\<close>) carry no control flow in \<open>orchestrate\<close> and are
  left out of the records.
\<close>

datatype js_error =
    Thrown string    \<comment> \<open>\<open>throw new Error(message)\<close> by a collaborator or by the code\<close>
  | TypeError        \<comment> \<open>raised by the engine: property access on \<open>undefined\<close>/\<open>null\<close>,
                        property creation on a primitive in strict mode\<close>

record issue =
  issue_message :: string
  issue_suggestion :: "string option"

text \<open>
  What \<open>_runCommand\<close> followed by \<open>_parseOutput\<close> yields for one attempt:
  \<open>JSON.parse\<close> gives an object (or array), or a primitive; when parsing fails the
  trimmed output string, a primitive too. The standalone branch builds its own object.
\<close>

datatype 'r exec_result =
    JsonObject 'r
  | Primitive string
  | Standalone (standalone_task: string)

record 'r last_result =
  result_value :: "'r exec_result"
  qualityIssues :: "issue list option"

record pre_outcome =
  pre_passed :: bool
  pre_violations :: "string list option"
    \<comment> \<open>the \<open>message\<close> of each violation, \<open>''''\<close> when it has none\<close>

record post_outcome =
  post_passed :: bool
  post_issues :: "issue list option"

text \<open>
  The collaborators are oracles. The executor is asked with the number of the attempt and
  the task text; a validation function may return a falsy value (\<open>None\<close>).
\<close>

type_synonym 'r executor = "nat \<Rightarrow> string \<Rightarrow> js_error + 'r exec_result"
type_synonym pre_fn = "string \<Rightarrow> js_error + pre_outcome option"
type_synonym 'r post_fn = "nat \<Rightarrow> 'r exec_result \<Rightarrow> js_error + post_outcome option"

datatype call = PreValidationCall string | ExecutorCall string | PostValidationCall nat

record adapter =
  connected :: bool
  tasksOrchestrated :: nat
  totalValidations :: nat
  blockedOperations :: nat
  calls :: "call list"   \<comment> \<open>log of the collaborator invocations, oldest first\<close>

record 'r orchestrate_options =
  preValidation :: "pre_fn option"        \<comment> \<open>\<open>None\<close>: absent or not a function\<close>
  postValidation :: "'r post_fn option"
  opt_maxRetries :: "int option"          \<comment> \<open>\<open>options.maxRetries\<close>, \<open>None\<close> when undefined\<close>

record 'r orch_result =
  success :: "bool option"
  blocked :: "bool option"
  reason :: "string option"
  error :: "js_error option"
  spread :: "'r last_result option"       \<comment> \<open>the keys of \<open>...lastResult\<close>\<close>
  attempts :: "nat option"
  maxRetries :: "int option"
  finalStatus :: "string option"

definition empty_result :: "'r orch_result" where
  "empty_result = \<lparr> success = None, blocked = None, reason = None, error = None,
     spread = None, attempts = None, maxRetries = None, finalStatus = None \<rparr>"

definition nl :: string where
  "nl = [CHR 0x0A]"

definition feedback_marker :: string where
  "feedback_marker = ''[QUALITY FEEDBACK - PLEASE FIX]:''"

fun join_with :: "string \<Rightarrow> string list \<Rightarrow> string" where
  "join_with sep [] = []"
| "join_with sep [x] = x"
| "join_with sep (x # y # ys) = x @ sep @ join_with sep (y # ys)"

text \<open>\<open>s.split(m)[0]\<close> when \<open>s.includes(m)\<close>: the text before the first occurrence.\<close>

fun before_first :: "string \<Rightarrow> string \<Rightarrow> string option" where
  "before_first m [] = (if m = [] then Some [] else None)"
| "before_first m (c # cs) =
     (if prefix m (c # cs) then Some []
      else map_option ((#) c) (before_first m cs))"

definition issue_line :: "issue \<Rightarrow> string" where
  "issue_line i = ''- '' @ issue_message i @ '' ('' @
     (case issue_suggestion i of
        None \<Rightarrow> ''Fix this''
      | Some s \<Rightarrow> if s = [] then ''Fix this'' else s) @ '')''"

definition feedback :: "issue list \<Rightarrow> string" where
  "feedback is = nl @ nl @ feedback_marker @ nl @
     ''The previous attempt had the following issues:'' @ nl @
     join_with nl (map issue_line is) @ nl @ nl @
     ''Please correct these issues in the next attempt.''"

definition with_feedback :: "string \<Rightarrow> issue list \<Rightarrow> string" where
  "with_feedback currentTask is =
     (case before_first feedback_marker currentTask of
        Some head \<Rightarrow> head @ feedback is
      | None \<Rightarrow> currentTask @ feedback is)"

definition log_call :: "call \<Rightarrow> adapter \<Rightarrow> adapter" where
  "log_call c a = a\<lparr> calls := calls a @ [c] \<rparr>"

text \<open>One attempt's executor step: the external command when connected, the inert
  standalone object otherwise.\<close>

definition run_attempt ::
  "'r executor \<Rightarrow> adapter \<Rightarrow> nat \<Rightarrow> string \<Rightarrow> adapter \<times> (js_error + 'r exec_result)" where
  "run_attempt exec a n task =
     (if connected a then (log_call (ExecutorCall task) a, exec n task)
      else (a, Inr (Standalone task)))"

text \<open>
  The body of the \<open>while (attempts <= config.maxRetries)\<close> loop for attempt \<open>n\<close>
  (already incremented). \<open>Again\<close> is the way back to the loop test, by \<open>continue\<close> or by
  falling through the \<open>if\<close>; \<open>Leave\<close> is \<open>break\<close> with \<open>success = true\<close>; \<open>Caught\<close>
  is the \<open>return\<close> of the \<open>catch\<close> block.
\<close>

datatype 'r step =
    Again adapter string "'r last_result"
  | Leave adapter "'r last_result"
  | Caught adapter js_error

definition attempt_body ::
  "'r executor \<Rightarrow> 'r post_fn option \<Rightarrow> int \<Rightarrow> adapter \<Rightarrow> string \<Rightarrow> nat \<Rightarrow> 'r step" where
  "attempt_body exec post maxR a currentTask n =
     (case run_attempt exec a n currentTask of
        (a1, Inl e) \<Rightarrow> Caught a1 e
      | (a1, Inr result) \<Rightarrow>
         (case post of
            None \<Rightarrow> Leave a1 \<lparr> result_value = result, qualityIssues = None \<rparr>
          | Some pv \<Rightarrow>
             (let a2 = log_call (PostValidationCall n)
                         (a1\<lparr> totalValidations := Suc (totalValidations a1) \<rparr>)
              in case pv n result of
                   Inl e \<Rightarrow> Caught a2 e
                 | Inr None \<Rightarrow> Leave a2 \<lparr> result_value = result, qualityIssues = None \<rparr>
                 | Inr (Some postResult) \<Rightarrow>
                     if post_passed postResult then
                       Leave a2 \<lparr> result_value = result, qualityIssues = None \<rparr>
                     else
                       (case result of
                          Primitive p \<Rightarrow> Caught a2 TypeError
                        | _ \<Rightarrow>
                           (let lastResult = \<lparr> result_value = result,
                                   qualityIssues = post_issues postResult \<rparr>
                            in if int n \<le> maxR then
                                 (case post_issues postResult of
                                    None \<Rightarrow> Caught a2 TypeError
                                  | Some is \<Rightarrow>
                                      Again a2 (with_feedback currentTask is) lastResult)
                               else Again a2 currentTask lastResult)))))"

text \<open>
  The loop itself. The result is the adapter and either the error caught by the loop's
  \<open>catch\<close>, or \<open>(success, attempts, lastResult)\<close> at the loop's exit.
\<close>

function execution_loop ::
  "'r executor \<Rightarrow> 'r post_fn option \<Rightarrow> int \<Rightarrow> adapter \<Rightarrow> string \<Rightarrow> nat \<Rightarrow>
   'r last_result option \<Rightarrow>
   adapter \<times> (js_error + bool \<times> nat \<times> 'r last_result option)" where
  "execution_loop exec post maxR a currentTask n lastResult =
     (if int n \<le> maxR then
        (case attempt_body exec post maxR a currentTask (Suc n) of
           Again a' task' r \<Rightarrow> execution_loop exec post maxR a' task' (Suc n) (Some r)
         | Leave a' r \<Rightarrow> (a', Inr (True, Suc n, Some r))
         | Caught a' e \<Rightarrow> (a', Inl e))
      else (a, Inr (False, n, lastResult)))"
  by pat_completeness auto
termination
  by (relation "measure (\<lambda>(exec, post, maxR, a, t, n, l). nat (maxR + 1 - int n))") auto

declare execution_loop.simps [simp del]

text \<open>\<open>options.maxRetries || 3\<close>: every falsy value, \<open>0\<close> included, gives 3.\<close>

definition config_maxRetries :: "int option \<Rightarrow> int" where
  "config_maxRetries m = (case m of None \<Rightarrow> 3 | Some k \<Rightarrow> if k = 0 then 3 else k)"

definition blocked_reason :: "pre_outcome \<Rightarrow> string" where
  "blocked_reason preResult =
     (case pre_violations preResult of
        Some (m # ms) \<Rightarrow> if m = [] then ''Pre-validation failed'' else m
      | _ \<Rightarrow> ''Pre-validation failed'')"

definition finish ::
  "int \<Rightarrow> adapter \<times> (js_error + bool \<times> nat \<times> 'r last_result option) \<Rightarrow>
   adapter \<times> (js_error + 'r orch_result)" where
  "finish maxR out =
     (case out of
        (a, Inl e) \<Rightarrow> (a, Inr (empty_result\<lparr> success := Some False, error := Some e \<rparr>))
      | (a, Inr (ok, n, lastResult)) \<Rightarrow>
          (a, Inr (empty_result\<lparr> spread := lastResult, attempts := Some n,
                     maxRetries := Some maxR,
                     finalStatus := Some (if ok then ''success''
                                          else ''max_retries_exceeded'') \<rparr>)))"

text \<open>
  \<open>orchestrate(task, options)\<close>. The pre-validation call is outside every \<open>try\<close>: an error
  it raises rejects the whole call (\<open>Inl\<close>).
\<close>

definition orchestrate ::
  "'r executor \<Rightarrow> adapter \<Rightarrow> string \<Rightarrow> 'r orchestrate_options \<Rightarrow>
   adapter \<times> (js_error + 'r orch_result)" where
  "orchestrate exec a0 task options =
     (let a = a0\<lparr> tasksOrchestrated := Suc (tasksOrchestrated a0) \<rparr>;
          maxR = config_maxRetries (opt_maxRetries options);
          run = (\<lambda>a'. finish maxR
                   (execution_loop exec (postValidation options) maxR a' task 0 None))
      in case preValidation options of
           None \<Rightarrow> run a
         | Some pre \<Rightarrow>
            (let a1 = log_call (PreValidationCall task)
                        (a\<lparr> totalValidations := Suc (totalValidations a) \<rparr>)
             in case pre task of
                  Inl e \<Rightarrow> (a1, Inl e)
                | Inr None \<Rightarrow> run a1
                | Inr (Some preResult) \<Rightarrow>
                    if pre_passed preResult then run a1
                    else (a1\<lparr> blockedOperations := Suc (blockedOperations a1) \<rparr>,
                          Inr (empty_result\<lparr> success := Some False, blocked := Some True,
                                 reason := Some (blocked_reason preResult) \<rparr>))))"

text \<open>The task texts handed to the external executor, in order of invocation.\<close>

fun executor_tasks :: "call list \<Rightarrow> string list" where
  "executor_tasks [] = []"
| "executor_tasks (ExecutorCall t # cs) = t # executor_tasks cs"
| "executor_tasks (c # cs) = executor_tasks cs"

subsection \<open>Concrete collaborators\<close>

definition adapter0 :: adapter where
  "adapter0 = \<lparr> connected = True, tasksOrchestrated = 0, totalValidations = 0,
     blockedOperations = 0, calls = [] \<rparr>"

definition ok_executor :: "unit executor" where
  "ok_executor n t = Inr (JsonObject ())"

definition raising_executor :: "unit executor" where
  "raising_executor n t = Inl (Thrown ''Command failed with code 1'')"

definition failing_pre :: pre_fn where
  "failing_pre t = Inr (Some \<lparr> pre_passed = False, pre_violations = None \<rparr>)"

definition failing_post :: "unit post_fn" where
  "failing_post n r = Inr (Some \<lparr> post_passed = False,
     post_issues = Some [\<lparr> issue_message = ''bad'', issue_suggestion = None \<rparr>] \<rparr>)"

definition options_blocked :: "unit orchestrate_options" where
  "options_blocked = \<lparr> preValidation = Some failing_pre, postValidation = None,
     opt_maxRetries = Some 3 \<rparr>"

definition options_retry :: "int \<Rightarrow> unit orchestrate_options" where
  "options_retry N = \<lparr> preValidation = None, postValidation = Some failing_post,
     opt_maxRetries = Some N \<rparr>"

section \<open>Phase state machine: \<open>SPARCIntegration\<close>\<close>

text \<open>
  The identifier, the clock reading and the caller's options of a workflow (\<open>id\<close>,
  \<open>startTime\<close>, \<open>options\<close>) and the \<open>responseTime\<close> of a result are left out; they take no
  part in a decision.
\<close>

text \<open>
  Values a phase output may hold. Numbers are finite and exact (rationals stand for the
  doubles of the source); an array holds strings; \<open>JObj\<close> is a plain object without a
  \<open>length\<close> key.
\<close>

datatype jsval =
    JUndefined | JNull | JBool bool | JNum rat | JStr string | JArr "string list" | JObj

fun truthy :: "jsval \<Rightarrow> bool" where
  "truthy JUndefined = False"
| "truthy JNull = False"
| "truthy (JBool b) = b"
| "truthy (JNum x) = (x \<noteq> 0)"
| "truthy (JStr s) = (s \<noteq> [])"
| "truthy (JArr xs) = True"
| "truthy JObj = True"

text \<open>\<open>v?.length\<close> as a condition.\<close>

fun length_truthy :: "jsval \<Rightarrow> bool" where
  "length_truthy (JStr s) = (s \<noteq> [])"
| "length_truthy (JArr xs) = (xs \<noteq> [])"
| "length_truthy v = False"

text \<open>
  \<open>v < 90\<close>: the operand is coerced by \<open>ToNumber\<close>. The conversion of a string is the
  runtime's; it is the parameter \<open>toNumber\<close>, with \<open>None\<close> for \<open>NaN\<close>. An array of strings
  is first joined with commas, a plain object reads as \<open>NaN\<close>.
\<close>

fun below_90 :: "(string \<Rightarrow> rat option) \<Rightarrow> jsval \<Rightarrow> bool" where
  "below_90 toNumber JUndefined = False"
| "below_90 toNumber JNull = True"
| "below_90 toNumber (JBool b) = True"
| "below_90 toNumber (JNum x) = (x < 90)"
| "below_90 toNumber (JStr s) = (case toNumber s of None \<Rightarrow> False | Some x \<Rightarrow> x < 90)"
| "below_90 toNumber (JArr xs) =
     (case toNumber (join_with '','' xs) of None \<Rightarrow> False | Some x \<Rightarrow> x < 90)"
| "below_90 toNumber JObj = False"

type_synonym outputs = "string \<Rightarrow> jsval"   \<comment> \<open>\<open>JUndefined\<close> for an absent key\<close>

record phase_config =
  phase_name :: string
  requiredOutputs :: "string list"
  qualityGate :: rat

definition phases :: "(string \<times> phase_config) list" where
  "phases =
    [(''specification'', \<lparr> phase_name = ''Specification'',
        requiredOutputs = [''requirements'', ''constraints'', ''success_criteria''],
        qualityGate = 85 / 100 \<rparr>),
     (''pseudocode'', \<lparr> phase_name = ''Pseudocode'',
        requiredOutputs = [''algorithm_design'', ''data_structures''],
        qualityGate = 85 / 100 \<rparr>),
     (''architecture'', \<lparr> phase_name = ''Architecture'',
        requiredOutputs = [''system_design'', ''interfaces'', ''schemas''],
        qualityGate = 90 / 100 \<rparr>),
     (''refinement'', \<lparr> phase_name = ''Refinement (TDD)'',
        requiredOutputs = [''tests'', ''implementation'', ''coverage''],
        qualityGate = 95 / 100 \<rparr>),
     (''completion'', \<lparr> phase_name = ''Completion'',
        requiredOutputs = [''integration'', ''documentation''],
        qualityGate = 90 / 100 \<rparr>)]"

text \<open>
  \<open>this.phases[phase]\<close> reads through the prototype chain: a key that \<open>this.phases\<close> does
  not own but \<open>Object.prototype\<close> does yields a truthy value that is no phase descriptor.
\<close>

definition object_prototype_keys :: "string list" where
  "object_prototype_keys =
    [''constructor'', ''__defineGetter__'', ''__defineSetter__'', ''hasOwnProperty'',
     ''__lookupGetter__'', ''__lookupSetter__'', ''isPrototypeOf'', ''propertyIsEnumerable'',
     ''toString'', ''valueOf'', ''__proto__'', ''toLocaleString'']"

datatype phase_lookup = OwnPhase phase_config | Inherited | Missing

definition lookup_phase :: "string \<Rightarrow> phase_lookup" where
  "lookup_phase phase =
     (case map_of phases phase of
        Some c \<Rightarrow> OwnPhase c
      | None \<Rightarrow> if phase \<in> set object_prototype_keys then Inherited else Missing)"

record sparc_issue =
  issue_type :: "string option"
  issue_severity :: "string option"
  sparc_message :: string

record remediation_step =
  rem_issue :: string
  rem_remediation :: string
  rem_priority :: string

record phase_result =
  res_phase :: string
  passed :: bool
  score :: rat
  res_qualityGate :: rat
  issues :: "sparc_issue list"
  nextPhase :: "string option option"     \<comment> \<open>outer \<open>None\<close>: key not set; \<open>Some None\<close>: \<open>null\<close>\<close>
  nextSteps :: "string list option"
  remediation :: "remediation_step list option"

datatype phase_outcome =
    UnknownPhase string       \<comment> \<open>\<open>{valid: false, error}\<close>\<close>
  | Validated phase_result

record workflow =
  workflow_task :: string
  currentPhase :: "string option"         \<comment> \<open>\<open>None\<close> is \<open>null\<close>, after the last phase\<close>
  completedPhases :: "string list"
  phaseResults :: "string \<rightharpoonup> phase_result"

datatype sparc_event =
    WorkflowStarted string | PhaseCompleted string | PhaseFailed string

datatype validator_result =
    VNothing                               \<comment> \<open>\<open>null\<close> or \<open>undefined\<close>\<close>
  | VObject "sparc_issue list option"      \<comment> \<open>an object and its \<open>issues\<close>, if truthy\<close>

type_synonym validator = "outputs \<Rightarrow> js_error + validator_result"

record sparc =
  enableValidation :: bool
  currentWorkflow :: "workflow option"
  sparc_events :: "sparc_event list"

definition startWorkflow :: "string \<Rightarrow> sparc \<Rightarrow> sparc" where
  "startWorkflow taskDescription s =
     s\<lparr> currentWorkflow := Some \<lparr> workflow_task = taskDescription,
            currentPhase = Some ''specification'', completedPhases = [],
            phaseResults = Map.empty \<rparr>,
        sparc_events := sparc_events s @ [WorkflowStarted taskDescription] \<rparr>"

text \<open>The loop over \<open>phaseConfig.requiredOutputs\<close>.\<close>

fun check_required :: "outputs \<Rightarrow> string list \<Rightarrow> sparc_issue list \<times> rat \<Rightarrow>
    sparc_issue list \<times> rat" where
  "check_required outs [] acc = acc"
| "check_required outs (required # rest) (iss, sc) =
     (if \<not> truthy (outs required) then
        check_required outs rest
          (iss @ [\<lparr> issue_type = Some ''missing_output'', issue_severity = Some ''HIGH'',
                     sparc_message = ''Missing required output: '' @ required \<rparr>],
           sc - 2 / 10)
      else check_required outs rest (iss, sc))"

text \<open>The number in \<open>`Test coverage ${outputs.coverage}% below 90% target`\<close> is rendered by
  the runtime; \<open>show\<close> stands for that rendering.\<close>

definition validatePhaseSpecific ::
  "(string \<Rightarrow> rat option) \<Rightarrow> (jsval \<Rightarrow> string) \<Rightarrow> string \<Rightarrow> outputs \<Rightarrow>
   sparc_issue list \<times> rat" where
  "validatePhaseSpecific toNumber show phase outs =
     (if phase = ''specification'' then
        (if \<not> length_truthy (outs ''requirements'') then
           ([\<lparr> issue_type = Some ''incomplete'', issue_severity = None,
                sparc_message = ''No requirements defined'' \<rparr>], 1 / 10)
         else ([], 0))
      else if phase = ''architecture'' then
        (if \<not> truthy (outs ''interfaces'') then
           ([\<lparr> issue_type = Some ''incomplete'', issue_severity = None,
                sparc_message = ''No interface definitions'' \<rparr>], 15 / 100)
         else ([], 0))
      else if phase = ''refinement'' then
        (if truthy (outs ''coverage'') \<and> below_90 toNumber (outs ''coverage'') then
           ([\<lparr> issue_type = Some ''coverage'', issue_severity = None,
                sparc_message = ''Test coverage '' @ show (outs ''coverage'') @
                   ''% below 90% target'' \<rparr>], 2 / 10)
         else ([], 0))
      else ([], 0))"

fun index_of :: "'a \<Rightarrow> 'a list \<Rightarrow> nat option" where
  "index_of x [] = None"
| "index_of x (y # ys) = (if x = y then Some 0 else map_option Suc (index_of x ys))"

text \<open>\<open>_getNextPhase\<close>: \<open>indexOf\<close> gives \<open>-1\<close> for a name that is no key, and then the
  successor is the first phase.\<close>

definition getNextPhase :: "string \<Rightarrow> string option" where
  "getNextPhase current =
     (let keys = map fst phases;
          currentIndex = (case index_of current keys of None \<Rightarrow> - 1 | Some i \<Rightarrow> int i)
      in if currentIndex < int (length keys) - 1 then Some (keys ! nat (currentIndex + 1))
         else None)"

definition getPhaseGuidance :: "string \<Rightarrow> string list" where
  "getPhaseGuidance phase =
     (if phase = ''specification'' then
        [''Define clear requirements with acceptance criteria'',
         ''Identify constraints and non-functional requirements'',
         ''Create user stories or use cases'',
         ''Define success metrics'']
      else if phase = ''pseudocode'' then
        [''Design algorithms at high level'',
         ''Define data structures needed'',
         ''Plan module interactions'',
         ''Consider edge cases'']
      else if phase = ''architecture'' then
        [''Design system components and boundaries'',
         ''Define API contracts and interfaces'',
         ''Plan database schemas'',
         ''Consider scalability and security'']
      else if phase = ''refinement'' then
        [''Write failing tests first (RED)'',
         ''Implement minimum code to pass (GREEN)'',
         ''Refactor for quality (REFACTOR)'',
         ''Target 90%+ test coverage'']
      else if phase = ''completion'' then
        [''Integrate all components'',
         ''Run full test suite'',
         ''Complete documentation'',
         ''Prepare deployment'']
      else [])"

text \<open>In \<open>`Fix ${issue.type} issue before proceeding`\<close> a missing \<open>type\<close> prints as
  \<open>undefined\<close>.\<close>

definition getRemediationSteps :: "sparc_issue list \<Rightarrow> remediation_step list" where
  "getRemediationSteps iss =
     map (\<lambda>i. \<lparr> rem_issue = sparc_message i,
                 rem_remediation = ''Fix '' @
                   (case issue_type i of None \<Rightarrow> ''undefined'' | Some t \<Rightarrow> t) @
                   '' issue before proceeding'',
                 rem_priority = (if issue_severity i = Some ''HIGH'' then ''immediate''
                                 else ''recommended'') \<rparr>) iss"

text \<open>\<open>Math.round(x * 1000) / 1000\<close>; \<open>Math.round\<close> rounds halves up, as \<open>round\<close> does.\<close>

definition round3 :: "rat \<Rightarrow> rat" where
  "round3 x = of_int (round (x * 1000)) / 1000"

definition validatePhase ::
  "(string \<Rightarrow> rat option) \<Rightarrow> (jsval \<Rightarrow> string) \<Rightarrow> string \<Rightarrow> outputs \<Rightarrow>
   validator option \<Rightarrow> sparc \<Rightarrow> sparc \<times> (js_error + phase_outcome)" where
  "validatePhase toNumber show phase outs validator s =
     (case lookup_phase phase of
        Missing \<Rightarrow> (s, Inr (UnknownPhase (''Unknown phase: '' @ phase)))
      | Inherited \<Rightarrow> (s, Inl TypeError)
      | OwnPhase phaseConfig \<Rightarrow>
         (let (issues1, score1) = check_required outs (requiredOutputs phaseConfig) ([], 1);
              custom =
                (case validator of
                   None \<Rightarrow> Inr (issues1, score1)
                 | Some v \<Rightarrow>
                     if enableValidation s then
                       (case v outs of
                          Inl e \<Rightarrow> Inl e
                        | Inr VNothing \<Rightarrow> Inl TypeError
                        | Inr (VObject None) \<Rightarrow> Inr (issues1, score1)
                        | Inr (VObject (Some vi)) \<Rightarrow>
                            Inr (issues1 @ vi, score1 - of_nat (length vi) * (1 / 10)))
                     else Inr (issues1, score1))
          in case custom of
               Inl e \<Rightarrow> (s, Inl e)
             | Inr (issues2, score2) \<Rightarrow>
                (let (issues3, deduction) = validatePhaseSpecific toNumber show phase outs;
                     allIssues = issues2 @ issues3;
                     finalScore = max 0 (score2 - deduction);
                     ok = (finalScore \<ge> qualityGate phaseConfig);
                     result = \<lparr> res_phase = phase, passed = ok, score = round3 finalScore,
                                res_qualityGate = qualityGate phaseConfig, issues = allIssues,
                                nextPhase = None, nextSteps = None, remediation = None \<rparr>
                 in if ok then
                      (let next = getNextPhase phase;
                           result' = result\<lparr> nextPhase := Some next,
                                        nextSteps := map_option getPhaseGuidance next \<rparr>;
                           wf' = (case currentWorkflow s of
                                    None \<Rightarrow> None
                                  | Some w \<Rightarrow>
                                      if currentPhase w = Some phase then
                                        Some (w\<lparr> completedPhases := completedPhases w @ [phase],
                                                 phaseResults := (phaseResults w)(phase \<mapsto> result'),
                                                 currentPhase := next \<rparr>)
                                      else Some w)
                       in (s\<lparr> currentWorkflow := wf',
                              sparc_events := sparc_events s @ [PhaseCompleted phase] \<rparr>,
                           Inr (Validated result')))
                    else
                      (s\<lparr> sparc_events := sparc_events s @ [PhaseFailed phase] \<rparr>,
                       Inr (Validated
                         (result\<lparr> remediation := Some (getRemediationSteps allIssues) \<rparr>))))))"

definition full_spec_outputs :: outputs where
  "full_spec_outputs k =
     (if k = ''requirements'' then JArr [''login works'']
      else if k = ''constraints'' then JStr ''offline''
      else if k = ''success_criteria'' then JStr ''all tests green''
      else JUndefined)"

definition no_outputs :: outputs where
  "no_outputs k = JUndefined"

definition no_toNumber :: "string \<Rightarrow> rat option" where
  "no_toNumber s = None"

definition show0 :: "jsval \<Rightarrow> string" where
  "show0 v = ''?''"

definition sparc0 :: sparc where
  "sparc0 = startWorkflow ''Build REST API''
     \<lparr> enableValidation = True, currentWorkflow = None, sparc_events = [] \<rparr>"

definition all_outputs :: outputs where
  "all_outputs k = JStr ''done''"

definition workflow0 :: workflow where
  "workflow0 = \<lparr> workflow_task = ''Build REST API'', currentPhase = Some ''specification'',
     completedPhases = [], phaseResults = Map.empty \<rparr>"

definition spec_passed :: phase_result where
  "spec_passed = \<lparr> res_phase = ''specification'', passed = True, score = 1,
     res_qualityGate = 85 / 100, issues = [], nextPhase = Some (Some ''pseudocode''),
     nextSteps = Some (getPhaseGuidance ''pseudocode''), remediation = None \<rparr>"

definition pseudocode_passed :: phase_result where
  "pseudocode_passed = \<lparr> res_phase = ''pseudocode'', passed = True, score = 1,
     res_qualityGate = 85 / 100, issues = [], nextPhase = Some (Some ''architecture''),
     nextSteps = Some (getPhaseGuidance ''architecture''), remediation = None \<rparr>"

section \<open>Hook pipeline: \<open>ValidationHooks\<close>\<close>

text \<open>
  The registries are the two \<open>Map\<close>s of the source, kept as association lists in insertion
  order. The time a run took is the parameter \<open>elapsed\<close> of the two \<open>execute\<close> functions; the
  rolling averages of the run times and the per-hook \<open>totalTime\<close> are readouts only and are
  left out. The priority of a hook is one of the four names of the data model.
\<close>

datatype priority = CRITICAL | HIGH | MEDIUM | LOW

record pre_hook_result =
  allowed :: bool                         \<comment> \<open>truthiness of \<open>result.allowed\<close>\<close>
  hr_reason :: "string option"
  hr_severity :: "string option"
  hr_suggestion :: "string option"

record post_hook_result =
  valid_is_false :: bool                  \<comment> \<open>\<open>hookResult.valid === false\<close>\<close>
  hr_issues :: "string list option"

text \<open>A handler is an oracle on the tool name and the parameters (for a post-hook, the
  parameters and the tool's result); it raises, or returns a falsy value (\<open>None\<close>) or an
  object.\<close>

type_synonym ('p, 'r) handler = "string \<Rightarrow> 'p \<Rightarrow> js_error + 'r option"

datatype 'h js_value = Callable 'h | NotCallable   \<comment> \<open>\<open>typeof v === 'function'\<close> or not\<close>

record ('p, 'r) hook =
  hook_id :: string
  handler :: "('p, 'r) handler"
  hook_priority :: priority
  enabled :: bool
  executions :: nat                       \<comment> \<open>\<open>metrics.executions\<close>\<close>

record intervention =
  hookId :: string
  iv_reason :: "string option"
  iv_severity :: string
  iv_suggestion :: "string option"

datatype hook_event =
    HookRegistered string string
  | HookError string js_error
  | PerformanceViolation string
  | PreToolUseComplete
  | PostToolUseComplete

record ('p, 'q) validation_hooks =
  strictMode :: bool
  preToolUseThreshold :: rat
  postToolUseThreshold :: rat
  preToolUse :: "(string \<times> ('p, pre_hook_result) hook) list"    \<comment> \<open>the \<open>Map\<close>, in insertion order\<close>
  postToolUse :: "(string \<times> ('q, post_hook_result) hook) list"
  preToolUseExecutions :: nat
  postToolUseExecutions :: nat
  preToolUseBlocked :: nat
  postToolUseBlocked :: nat
  performanceViolations :: nat
  hook_events :: "hook_event list"
  invoked :: "string list"                \<comment> \<open>ids of the handlers called, in order\<close>

record pre_results =
  res_allowed :: bool
  interventions :: "intervention list"

record post_results =
  res_valid :: bool
  res_issues :: "string list"

text \<open>\<open>priorityOrder[p] || 2\<close> with \<open>{CRITICAL: 0, HIGH: 1, MEDIUM: 2, LOW: 3}\<close>: the 0 of
  \<open>CRITICAL\<close> is falsy and becomes 2.\<close>

fun priority_rank :: "priority \<Rightarrow> nat" where
  "priority_rank CRITICAL = 2"
| "priority_rank HIGH = 1"
| "priority_rank MEDIUM = 2"
| "priority_rank LOW = 3"

text \<open>\<open>_getSortedHooks\<close>: \<open>Array.prototype.sort\<close> is stable, as \<open>sort_key\<close> is.\<close>

definition getSortedHooks :: "(string \<times> ('p, 'r) hook) list \<Rightarrow> ('p, 'r) hook list" where
  "getSortedHooks registry = sort_key (\<lambda>h. priority_rank (hook_priority h)) (map snd registry)"

text \<open>\<open>hook.metrics.executions++\<close> on the hook object held by the \<open>Map\<close>.\<close>

definition count_execution ::
  "string \<Rightarrow> (string \<times> ('p, 'r) hook) list \<Rightarrow> (string \<times> ('p, 'r) hook) list" where
  "count_execution i registry =
     map (\<lambda>(k, h). if hook_id h = i then (k, h\<lparr> executions := Suc (executions h) \<rparr>)
                    else (k, h)) registry"

text \<open>The \<open>for (const hook of hooks)\<close> loop of \<open>executePreToolUse\<close>; the third component
  is the error that left the loop, if any.\<close>

fun pre_loop ::
  "string \<Rightarrow> 'p \<Rightarrow> ('p, pre_hook_result) hook list \<Rightarrow> ('p, 'q) validation_hooks \<Rightarrow>
   pre_results \<Rightarrow> ('p, 'q) validation_hooks \<times> pre_results \<times> js_error option" where
  "pre_loop toolName params [] s results = (s, results, None)"
| "pre_loop toolName params (hook # hooks) s results =
     (if \<not> enabled hook then pre_loop toolName params hooks s results
      else
        (let s1 = s\<lparr> invoked := invoked s @ [hook_id hook] \<rparr>
         in case handler hook toolName params of
              Inl e \<Rightarrow> (s1, results, Some e)
            | Inr result \<Rightarrow>
               (let s2 = s1\<lparr> preToolUse := count_execution (hook_id hook) (preToolUse s1) \<rparr>
                in case result of
                     None \<Rightarrow> pre_loop toolName params hooks s2 results
                   | Some r \<Rightarrow>
                       if allowed r then pre_loop toolName params hooks s2 results
                       else
                         (let results' = results\<lparr> res_allowed := False,
                                interventions := interventions results @
                                  [\<lparr> hookId = hook_id hook, iv_reason = hr_reason r,
                                     iv_severity = (case hr_severity r of
                                          None \<Rightarrow> ''HIGH''
                                        | Some v \<Rightarrow> if v = [] then ''HIGH'' else v),
                                     iv_suggestion = hr_suggestion r \<rparr>] \<rparr>;
                              s3 = s2\<lparr> preToolUseBlocked := Suc (preToolUseBlocked s2) \<rparr>
                          in if strictMode s3 then (s3, results', None)
                             else pre_loop toolName params hooks s3 results'))))"

definition executePreToolUse ::
  "rat \<Rightarrow> string \<Rightarrow> 'p \<Rightarrow> ('p, 'q) validation_hooks \<Rightarrow> ('p, 'q) validation_hooks \<times> pre_results" where
  "executePreToolUse elapsed toolName params s0 =
     (let s = s0\<lparr> preToolUseExecutions := Suc (preToolUseExecutions s0) \<rparr>;
          (s1, results, err) = pre_loop toolName params (getSortedHooks (preToolUse s)) s
                                 \<lparr> res_allowed = True, interventions = [] \<rparr>;
          s2 = (case err of
                  None \<Rightarrow> s1
                | Some e \<Rightarrow> s1\<lparr> hook_events := hook_events s1 @ [HookError ''preToolUse'' e] \<rparr>);
          s3 = (if elapsed > preToolUseThreshold s2 then
                  s2\<lparr> performanceViolations := Suc (performanceViolations s2),
                      hook_events := hook_events s2 @ [PerformanceViolation ''preToolUse''] \<rparr>
                else s2)
      in (s3\<lparr> hook_events := hook_events s3 @ [PreToolUseComplete] \<rparr>, results))"

text \<open>The loop of \<open>executePostToolUse\<close>: no \<open>break\<close>, whatever the mode.\<close>

fun post_loop ::
  "string \<Rightarrow> 'q \<Rightarrow> ('q, post_hook_result) hook list \<Rightarrow> ('p, 'q) validation_hooks \<Rightarrow>
   post_results \<Rightarrow> ('p, 'q) validation_hooks \<times> post_results \<times> js_error option" where
  "post_loop toolName params [] s validations = (s, validations, None)"
| "post_loop toolName params (hook # hooks) s validations =
     (if \<not> enabled hook then post_loop toolName params hooks s validations
      else
        (let s1 = s\<lparr> invoked := invoked s @ [hook_id hook] \<rparr>
         in case handler hook toolName params of
              Inl e \<Rightarrow> (s1, validations, Some e)
            | Inr hookResult \<Rightarrow>
               (let s2 = s1\<lparr> postToolUse := count_execution (hook_id hook) (postToolUse s1) \<rparr>
                in case hookResult of
                     None \<Rightarrow> post_loop toolName params hooks s2 validations
                   | Some r \<Rightarrow>
                       (let (s3, v1) =
                              (if valid_is_false r then
                                 (s2\<lparr> postToolUseBlocked := Suc (postToolUseBlocked s2) \<rparr>,
                                  validations\<lparr> res_valid := False \<rparr>)
                               else (s2, validations));
                            v2 = (case hr_issues r of
                                    None \<Rightarrow> v1
                                  | Some xs \<Rightarrow> v1\<lparr> res_issues := res_issues v1 @ xs \<rparr>)
                        in post_loop toolName params hooks s3 v2))))"

definition executePostToolUse ::
  "rat \<Rightarrow> string \<Rightarrow> 'q \<Rightarrow> ('p, 'q) validation_hooks \<Rightarrow> ('p, 'q) validation_hooks \<times> post_results" where
  "executePostToolUse elapsed toolName params s0 =
     (let s = s0\<lparr> postToolUseExecutions := Suc (postToolUseExecutions s0) \<rparr>;
          (s1, validations, err) = post_loop toolName params (getSortedHooks (postToolUse s)) s
                                 \<lparr> res_valid = True, res_issues = [] \<rparr>;
          s2 = (case err of
                  None \<Rightarrow> s1
                | Some e \<Rightarrow> s1\<lparr> hook_events := hook_events s1 @ [HookError ''postToolUse'' e] \<rparr>);
          s3 = (if elapsed > postToolUseThreshold s2 then
                  s2\<lparr> performanceViolations := Suc (performanceViolations s2),
                      hook_events := hook_events s2 @ [PerformanceViolation ''postToolUse''] \<rparr>
                else s2)
      in (s3\<lparr> hook_events := hook_events s3 @ [PostToolUseComplete] \<rparr>, validations))"

record hook_options =
  opt_priority :: "priority option"
  opt_enabled :: "bool option"

definition registerPreToolUse ::
  "string \<Rightarrow> ('p, pre_hook_result) handler js_value \<Rightarrow> hook_options \<Rightarrow>
   ('p, 'q) validation_hooks \<Rightarrow> ('p, 'q) validation_hooks \<times> (js_error + unit)" where
  "registerPreToolUse i h options s =
     (case h of
        NotCallable \<Rightarrow> (s, Inl (Thrown (''PreToolUse hook '' @ [CHR 0x27] @ i @ [CHR 0x27] @
                                         '' must be a function'')))
      | Callable f \<Rightarrow>
          (s\<lparr> preToolUse := AList.update i
                 \<lparr> hook_id = i, handler = f,
                   hook_priority = (case opt_priority options of None \<Rightarrow> MEDIUM | Some p \<Rightarrow> p),
                   enabled = (opt_enabled options \<noteq> Some False), executions = 0 \<rparr>
                 (preToolUse s),
              hook_events := hook_events s @ [HookRegistered ''preToolUse'' i] \<rparr>,
           Inr ()))"

definition registerPostToolUse ::
  "string \<Rightarrow> ('q, post_hook_result) handler js_value \<Rightarrow> hook_options \<Rightarrow>
   ('p, 'q) validation_hooks \<Rightarrow> ('p, 'q) validation_hooks \<times> (js_error + unit)" where
  "registerPostToolUse i h options s =
     (case h of
        NotCallable \<Rightarrow> (s, Inl (Thrown (''PostToolUse hook '' @ [CHR 0x27] @ i @ [CHR 0x27] @
                                         '' must be a function'')))
      | Callable f \<Rightarrow>
          (s\<lparr> postToolUse := AList.update i
                 \<lparr> hook_id = i, handler = f,
                   hook_priority = (case opt_priority options of None \<Rightarrow> MEDIUM | Some p \<Rightarrow> p),
                   enabled = (opt_enabled options \<noteq> Some False), executions = 0 \<rparr>
                 (postToolUse s),
              hook_events := hook_events s @ [HookRegistered ''postToolUse'' i] \<rparr>,
           Inr ()))"

definition hooks0 :: "(unit, unit) validation_hooks" where
  "hooks0 = \<lparr> strictMode = False, preToolUseThreshold = 1, postToolUseThreshold = 5,
     preToolUse = [], postToolUse = [], preToolUseExecutions = 0, postToolUseExecutions = 0,
     preToolUseBlocked = 0, postToolUseBlocked = 0, performanceViolations = 0,
     hook_events = [], invoked = [] \<rparr>"

definition raising_handler :: "(unit, 'r) handler" where
  "raising_handler toolName params = Inl (Thrown ''boom'')"

definition allowing_handler :: "(unit, pre_hook_result) handler" where
  "allowing_handler toolName params =
     Inr (Some \<lparr> allowed = True, hr_reason = None, hr_severity = None, hr_suggestion = None \<rparr>)"

definition accepting_handler :: "(unit, post_hook_result) handler" where
  "accepting_handler toolName params =
     Inr (Some \<lparr> valid_is_false = False, hr_issues = None \<rparr>)"

definition default_hook_options :: hook_options where
  "default_hook_options = \<lparr> opt_priority = None, opt_enabled = None \<rparr>"

definition hooks_two :: "(unit, unit) validation_hooks" where
  "hooks_two =
     fst (registerPostToolUse ''second'' (Callable accepting_handler) default_hook_options
      (fst (registerPostToolUse ''first'' (Callable raising_handler) default_hook_options
       (fst (registerPreToolUse ''second'' (Callable allowing_handler) default_hook_options
        (fst (registerPreToolUse ''first'' (Callable raising_handler) default_hook_options
           hooks0)))))))"

definition first_pre_hook :: "(unit, pre_hook_result) hook" where
  "first_pre_hook = \<lparr> hook_id = ''first'', handler = raising_handler, hook_priority = MEDIUM,
     enabled = True, executions = 0 \<rparr>"

definition second_pre_hook :: "(unit, pre_hook_result) hook" where
  "second_pre_hook = \<lparr> hook_id = ''second'', handler = allowing_handler,
     hook_priority = MEDIUM, enabled = True, executions = 0 \<rparr>"

definition first_post_hook :: "(unit, post_hook_result) hook" where
  "first_post_hook = \<lparr> hook_id = ''first'', handler = raising_handler, hook_priority = MEDIUM,
     enabled = True, executions = 0 \<rparr>"

definition second_post_hook :: "(unit, post_hook_result) hook" where
  "second_post_hook = \<lparr> hook_id = ''second'', handler = accepting_handler,
     hook_priority = MEDIUM, enabled = True, executions = 0 \<rparr>"


section \<open>Regular expressions as the source uses them\<close>

text \<open>
  A \<open>char\<close> stands for a UTF-16 code unit below 256. The matcher follows the backtracking
  semantics of ECMAScript: \<open>rx_run r (p, s)\<close> lists, in the order in which backtracking
  tries them, the states in which a match of \<open>r\<close> can end when it starts on the text \<open>s\<close>
  with \<open>p\<close> the code unit before it (\<open>None\<close> at the start of the input). The match the
  engine reports is the first of the list.
\<close>

datatype rx =
    Cls "char \<Rightarrow> bool"      \<comment> \<open>one code unit of a class\<close>
  | Eps
  | Seq rx rx
  | Alt rx rx
  | Star rx                \<comment> \<open>greedy \<open>*\<close>\<close>
  | Lazy rx                \<comment> \<open>lazy \<open>*?\<close>\<close>
  | NotAhead rx            \<comment> \<open>\<open>(?!r)\<close>\<close>
  | WordBoundary           \<comment> \<open>\<open>\b\<close>\<close>

type_synonym rx_state = "char option \<times> string"

definition is_word_char :: "char \<Rightarrow> bool" where
  "is_word_char c \<longleftrightarrow> c \<in> set ''abcdefghijklmnopqrstuvwxyzABCDEFGHIJKLMNOPQRSTUVWXYZ0123456789_''"

definition at_word_boundary :: "rx_state \<Rightarrow> bool" where
  "at_word_boundary st =
     ((case fst st of None \<Rightarrow> False | Some c \<Rightarrow> is_word_char c) \<noteq>
      (case snd st of [] \<Rightarrow> False | c # cs \<Rightarrow> is_word_char c))"

function rx_run :: "rx \<Rightarrow> rx_state \<Rightarrow> rx_state list" where
  "rx_run (Cls P) st =
     (case snd st of [] \<Rightarrow> [] | c # cs \<Rightarrow> if P c then [(Some c, cs)] else [])"
| "rx_run Eps st = [st]"
| "rx_run (Seq a b) st = concat (map (rx_run b) (rx_run a st))"
| "rx_run (Alt a b) st = rx_run a st @ rx_run b st"
| "rx_run (Star a) st =
     concat (map (\<lambda>st'. if length (snd st') < length (snd st) then rx_run (Star a) st'
                          else [])
                 (rx_run a st)) @ [st]"
| "rx_run (Lazy a) st =
     st # concat (map (\<lambda>st'. if length (snd st') < length (snd st) then rx_run (Lazy a) st'
                               else [])
                      (rx_run a st))"
| "rx_run (NotAhead a) st = (if rx_run a st = [] then [st] else [])"
| "rx_run WordBoundary st = (if at_word_boundary st then [st] else [])"
  by pat_completeness auto
termination
  by (relation "measures [\<lambda>(r, st). size r, \<lambda>(r, st). length (snd st)]") auto

text \<open>The equations of the two loops unfold for ever when used as rewrite rules.\<close>

declare rx_run.simps(5,6) [simp del]

text \<open>What the engine reports when it tries to match at the current position: the
  length of the first match.\<close>

definition match_here :: "rx \<Rightarrow> char option \<Rightarrow> string \<Rightarrow> nat option" where
  "match_here r p s =
     (case rx_run r (p, s) of [] \<Rightarrow> None | st # sts \<Rightarrow> Some (length s - length (snd st)))"

text \<open>\<open>regex.exec\<close> from the current position: the text skipped, the leftmost match, and
  the text after it.\<close>

fun search :: "rx \<Rightarrow> char option \<Rightarrow> string \<Rightarrow> (string \<times> string \<times> string) option" where
  "search r p [] = (case match_here r p [] of None \<Rightarrow> None | Some n \<Rightarrow> Some ([], [], []))"
| "search r p (c # cs) =
     (case match_here r p (c # cs) of
        Some n \<Rightarrow> Some ([], take n (c # cs), drop n (c # cs))
      | None \<Rightarrow> map_option (\<lambda>(pre, m, post). (c # pre, m, post)) (search r (Some c) cs))"

text \<open>\<open>regex.test(s)\<close> for a regular expression whose \<open>lastIndex\<close> is 0.\<close>

definition test :: "rx \<Rightarrow> string \<Rightarrow> bool" where
  "test r s = (search r None s \<noteq> None)"

text \<open>\<open>s.match(regex)\<close> with the \<open>g\<close> flag: all matches from left to right, the search
  resuming where the last match ended (one code unit further after an empty match).
  The empty list stands for \<open>null\<close>.\<close>

function match_all :: "rx \<Rightarrow> char option \<Rightarrow> string \<Rightarrow> string list" where
  "match_all r p [] = (case match_here r p [] of None \<Rightarrow> [] | Some n \<Rightarrow> [[]])"
| "match_all r p (c # cs) =
     (case match_here r p (c # cs) of
        None \<Rightarrow> match_all r (Some c) cs
      | Some 0 \<Rightarrow> [] # match_all r (Some c) cs
      | Some (Suc n) \<Rightarrow>
          (c # take n cs) # match_all r (Some (last (c # take n cs))) (drop n cs))"
  by pat_completeness auto
termination
  by (relation "measure (\<lambda>(r, p, s). length s)") auto

definition js_match :: "rx \<Rightarrow> string \<Rightarrow> string list" where
  "js_match r s = match_all r None s"

subsection \<open>Notation of the patterns\<close>

definition ch :: "char \<Rightarrow> rx" where
  "ch c = Cls (\<lambda>x. x = c)"

definition any_of :: "string \<Rightarrow> rx" where
  "any_of cs = Cls (\<lambda>x. x \<in> set cs)"

definition none_of :: "string \<Rightarrow> rx" where
  "none_of cs = Cls (\<lambda>x. x \<notin> set cs)"

fun lit :: "string \<Rightarrow> rx" where
  "lit [] = Eps"
| "lit (c # cs) = Seq (ch c) (lit cs)"

text \<open>The \<open>i\<close> flag: two code units match when their upper-case forms agree; below 256
  that identifies exactly the ASCII letters of either case.\<close>

definition same_letter :: "char \<Rightarrow> char \<Rightarrow> bool" where
  "same_letter a b \<longleftrightarrow> a = b \<or>
     (a, b) \<in> set (zip ''abcdefghijklmnopqrstuvwxyz'' ''ABCDEFGHIJKLMNOPQRSTUVWXYZ'') \<or>
     (b, a) \<in> set (zip ''abcdefghijklmnopqrstuvwxyz'' ''ABCDEFGHIJKLMNOPQRSTUVWXYZ'')"

fun lit_i :: "string \<Rightarrow> rx" where
  "lit_i [] = Eps"
| "lit_i (c # cs) = Seq (Cls (same_letter c)) (lit_i cs)"

definition is_space :: "char \<Rightarrow> bool" where
  "is_space c \<longleftrightarrow> c \<in> set [CHR 0x09, CHR 0x0A, CHR 0x0B, CHR 0x0C, CHR 0x0D, CHR 0x20, CHR 0xA0]"

definition ws :: rx where              \<comment> \<open>\<open>\s\<close>\<close>
  "ws = Cls is_space"

definition digit :: rx where           \<comment> \<open>\<open>\d\<close>\<close>
  "digit = any_of ''0123456789''"

definition dot :: rx where             \<comment> \<open>\<open>.\<close>: any code unit but a line terminator\<close>
  "dot = Cls (\<lambda>c. c \<noteq> CHR 0x0A \<and> c \<noteq> CHR 0x0D)"

definition anything :: rx where        \<comment> \<open>\<open>[\s\S]\<close>\<close>
  "anything = Cls (\<lambda>c. True)"

definition quote :: rx where           \<comment> \<open>\<open>["']\<close>\<close>
  "quote = any_of [CHR 0x22, CHR 0x27]"

definition not_quote :: rx where       \<comment> \<open>\<open>[^"']\<close>\<close>
  "not_quote = none_of [CHR 0x22, CHR 0x27]"

definition opt :: "rx \<Rightarrow> rx" where    \<comment> \<open>\<open>r?\<close>\<close>
  "opt r = Alt r Eps"

definition many1 :: "rx \<Rightarrow> rx" where   \<comment> \<open>\<open>r+\<close>\<close>
  "many1 r = Seq r (Star r)"

fun rep :: "nat \<Rightarrow> rx \<Rightarrow> rx" where  \<comment> \<open>\<open>r{n}\<close>\<close>
  "rep 0 r = Eps"
| "rep (Suc n) r = Seq r (rep n r)"

fun up_to :: "nat \<Rightarrow> rx \<Rightarrow> rx" where  \<comment> \<open>\<open>r{0,n}\<close>\<close>
  "up_to 0 r = Eps"
| "up_to (Suc n) r = opt (Seq r (up_to n r))"

definition at_least :: "nat \<Rightarrow> rx \<Rightarrow> rx" where   \<comment> \<open>\<open>r{n,}\<close>\<close>
  "at_least n r = Seq (rep n r) (Star r)"

definition between :: "nat \<Rightarrow> nat \<Rightarrow> rx \<Rightarrow> rx" where   \<comment> \<open>\<open>r{m,n}\<close>\<close>
  "between m n r = Seq (rep m r) (up_to (n - m) r)"

fun seqs :: "rx list \<Rightarrow> rx" where
  "seqs [] = Eps"
| "seqs (r # rs) = Seq r (seqs rs)"

fun alts :: "rx list \<Rightarrow> rx" where
  "alts [] = NotAhead Eps"
| "alts [r] = r"
| "alts (r # rs) = Alt r (alts rs)"

text \<open>A regular expression all of whose classes lie within \<open>P\<close> consumes only code units
  that satisfy \<open>P\<close>.\<close>

fun rx_only :: "(char \<Rightarrow> bool) \<Rightarrow> rx \<Rightarrow> bool" where
  "rx_only P (Cls Q) = (\<forall>c. Q c \<longrightarrow> P c)"
| "rx_only P Eps = True"
| "rx_only P (Seq a b) = (rx_only P a \<and> rx_only P b)"
| "rx_only P (Alt a b) = (rx_only P a \<and> rx_only P b)"
| "rx_only P (Star a) = rx_only P a"
| "rx_only P (Lazy a) = rx_only P a"
| "rx_only P (NotAhead a) = True"
| "rx_only P WordBoundary = True"


section \<open>Pattern validator: \<open>PatternValidator\<close>\<close>

record validator_options =
  enableSecurityChecks :: bool
  enablePerformanceChecks :: bool
  enableQualityChecks :: bool
  pv_strictMode :: bool

text \<open>\<open>new PatternValidator()\<close>.\<close>

definition default_validator_options :: validator_options where
  "default_validator_options = \<lparr> enableSecurityChecks = True, enablePerformanceChecks = True,
     enableQualityChecks = True, pv_strictMode = False \<rparr>"

record pv_metrics =
  checksRun :: nat
  violationsFound :: nat
  averageCheckTime :: rat

record violation =
  vtype :: string
  pattern :: "string option"
  severity :: string
  message :: string
  matches :: "string list option"
  suggestion :: string

record named_pattern =
  pat_name :: string
  regex :: rx
  pat_message :: string
  pat_suggestion :: string

subsection \<open>\<open>_compilePatterns\<close>\<close>

text \<open>\<open>kw\s*[=:]\s*["'][^"']{n,}["']\<close>\<close>

definition secret_rx :: "rx \<Rightarrow> nat \<Rightarrow> rx" where
  "secret_rx kw n =
     seqs [kw, Star ws, any_of ''=:'', Star ws, quote, at_least n not_quote, quote]"

definition patterns_secrets :: "named_pattern list" where
  "patterns_secrets =
    [\<lparr> pat_name = ''password'',
        regex = secret_rx (Alt (lit_i ''password'') (lit_i ''pwd'')) 4,
        pat_message = [], pat_suggestion = [] \<rparr>,
     \<lparr> pat_name = ''api_key'',
        regex = secret_rx (Alt (seqs [lit_i ''api'', opt (any_of ''_-''), lit_i ''key''])
                               (lit_i ''apikey'')) 10,
        pat_message = [], pat_suggestion = [] \<rparr>,
     \<lparr> pat_name = ''secret'',
        regex = secret_rx (Alt (lit_i ''secret'') (lit_i ''token'')) 8,
        pat_message = [], pat_suggestion = [] \<rparr>,
     \<lparr> pat_name = ''auth_token'',
        regex = secret_rx (seqs [lit_i ''auth'', opt (any_of ''_-''), lit_i ''token'']) 10,
        pat_message = [], pat_suggestion = [] \<rparr>,
     \<lparr> pat_name = ''private_key'',
        regex = secret_rx (seqs [lit_i ''private'', opt (any_of ''_-''), lit_i ''key'']) 20,
        pat_message = [], pat_suggestion = [] \<rparr>,
     \<lparr> pat_name = ''connection_string'',
        regex = secret_rx
          (Alt (seqs [lit_i ''connection'', opt (any_of ''_-''), lit_i ''string''])
               (seqs [lit_i ''database'', opt (any_of ''_-''), lit_i ''url''])) 15,
        pat_message = [], pat_suggestion = [] \<rparr>]"

definition patterns_sqlInjection :: "named_pattern list" where
  "patterns_sqlInjection =
    [\<lparr> pat_name = ''string_concat'',
        regex = seqs [Alt (lit_i ''query'') (lit_i ''sql''), Star ws, any_of ''+='', Star ws,
                      quote, Lazy dot, quote, Star ws, ch CHR ''+''],
        pat_message = [], pat_suggestion = [] \<rparr>,
     \<lparr> pat_name = ''template_literal'',
        regex = seqs [alts [lit_i ''SELECT'', lit_i ''INSERT'', lit_i ''UPDATE'',
                            lit_i ''DELETE''],
                      Lazy dot, lit ''${'', Lazy dot, ch CHR ''}''],
        pat_message = [], pat_suggestion = [] \<rparr>,
     \<lparr> pat_name = ''interpolation'',
        regex = seqs [Alt (lit_i ''query'') (lit_i ''execute''), Star ws, ch CHR ''('',
                      Star ws, quote, Lazy dot, lit ''${'', Lazy dot, ch CHR ''}'', Lazy dot,
                      quote],
        pat_message = [], pat_suggestion = [] \<rparr>]"

definition patterns_xss :: "named_pattern list" where
  "patterns_xss =
    [\<lparr> pat_name = ''innerHTML'',
        regex = seqs [lit ''.innerHTML'', Star ws, ch CHR ''=''],
        pat_message = [], pat_suggestion = ''Use textContent or DOM methods'' \<rparr>,
     \<lparr> pat_name = ''document.write'',
        regex = seqs [lit ''document.write'', Star ws, ch CHR ''(''],
        pat_message = [], pat_suggestion = ''Use DOM manipulation'' \<rparr>,
     \<lparr> pat_name = ''eval'',
        regex = seqs [WordBoundary, lit ''eval'', Star ws, ch CHR ''(''],
        pat_message = [], pat_suggestion = ''Avoid eval entirely'' \<rparr>,
     \<lparr> pat_name = ''dangerouslySetInnerHTML'',
        regex = lit ''dangerouslySetInnerHTML'',
        pat_message = [], pat_suggestion = ''Sanitize HTML first'' \<rparr>]"

definition patterns_commandInjection :: "named_pattern list" where
  "patterns_commandInjection =
    [\<lparr> pat_name = ''exec_concat'',
        regex = seqs [lit_i ''exec'', Star ws, ch CHR ''('', Star ws, quote, Lazy dot,
                      lit ''${'', Lazy dot, ch CHR ''}''],
        pat_message = [], pat_suggestion = [] \<rparr>,
     \<lparr> pat_name = ''spawn_concat'',
        regex = seqs [lit_i ''spawn'', Star ws, ch CHR ''('', Star ws, quote, Lazy dot,
                      ch CHR ''+''],
        pat_message = [], pat_suggestion = [] \<rparr>,
     \<lparr> pat_name = ''shell_interpolation'',
        regex = seqs [lit_i ''child_process'', Lazy dot, lit ''${''],
        pat_message = [], pat_suggestion = [] \<rparr>]"

definition patterns_hashMap :: "named_pattern list" where
  "patterns_hashMap =
    [\<lparr> pat_name = ''std_hashmap'', regex = lit ''std::collections::HashMap'',
        pat_message = [], pat_suggestion = [] \<rparr>,
     \<lparr> pat_name = ''std_hashset'', regex = lit ''std::collections::HashSet'',
        pat_message = [], pat_suggestion = [] \<rparr>,
     \<lparr> pat_name = ''hashmap_new'',
        regex = seqs [lit ''HashMap'', Star ws, lit ''::'', Star ws, lit ''new'', Star ws,
                      ch CHR ''(''],
        pat_message = [], pat_suggestion = [] \<rparr>,
     \<lparr> pat_name = ''hashmap_generic'', regex = seqs [lit ''HashMap'', Star ws, ch CHR ''<''],
        pat_message = [], pat_suggestion = [] \<rparr>]"

definition identifier_start :: rx where   \<comment> \<open>\<open>[a-zA-Z_$]\<close>\<close>
  "identifier_start = any_of ''abcdefghijklmnopqrstuvwxyzABCDEFGHIJKLMNOPQRSTUVWXYZ_$''"

definition identifier_part :: rx where    \<comment> \<open>\<open>[a-zA-Z0-9_$]\<close>\<close>
  "identifier_part =
     any_of ''abcdefghijklmnopqrstuvwxyzABCDEFGHIJKLMNOPQRSTUVWXYZ0123456789_$''"

definition patterns_performance :: "named_pattern list" where
  "patterns_performance =
    [\<lparr> pat_name = ''nested_loops'',
        regex = seqs [lit ''for'', Star ws, ch CHR ''('', Star (none_of '')''), ch CHR '')'',
                      Star ws, ch CHR ''{'', Star (none_of ''}''), lit ''for'', Star ws,
                      ch CHR ''('', Star (none_of '')''), ch CHR '')''],
        pat_message = ''Nested loops detected - O(n'' @ [CHR 0xC2, CHR 0xB2] @
                      '') complexity'',
        pat_suggestion = ''Consider using Map/Set for lookups'' \<rparr>,
     \<lparr> pat_name = ''json_deep_clone'',
        regex = seqs [lit ''JSON.parse'', Star ws, ch CHR ''('', Star ws,
                      lit ''JSON.stringify''],
        pat_message = ''JSON.parse(JSON.stringify()) is slow for deep cloning'',
        pat_suggestion = ''Use structuredClone() or a proper deep clone library'' \<rparr>,
     \<lparr> pat_name = ''spread_in_loop'',
        regex = seqs [lit ''...'', identifier_start, Star identifier_part, Star ws,
                      ch CHR '')''],
        pat_message = ''Spread operator in potential loop'',
        pat_suggestion = ''Pre-allocate arrays for better performance'' \<rparr>]"

subsection \<open>\<open>_maskSecret\<close>\<close>

text \<open>\<open>/["']([^"']{4,})["']/\<close>; its group is the match without the two quotes.\<close>

definition mask_rx :: rx where
  "mask_rx = seqs [quote, at_least 4 not_quote, quote]"

definition mask_replacer :: "string \<Rightarrow> string" where
  "mask_replacer m =
     (let v = butlast (tl m)
      in if length v \<le> 4 then m
         else [CHR 0x22] @ take 2 v @ replicate (min (length v - 4) 20) CHR ''*'' @
              drop (length v - 2) v @ [CHR 0x22])"

definition maskSecret :: "string \<Rightarrow> string" where
  "maskSecret secret =
     (case search mask_rx None secret of
        None \<Rightarrow> secret
      | Some (pre, m, post) \<Rightarrow> pre @ mask_replacer m @ post)"

subsection \<open>The checks of \<open>validatePre\<close>\<close>

text \<open>Each check is a loop over a pattern table that pushes one violation for every
  pattern with a match.\<close>

definition for_patterns ::
  "named_pattern list \<Rightarrow> string \<Rightarrow> (named_pattern \<Rightarrow> string list \<Rightarrow> violation) \<Rightarrow>
   violation list" where
  "for_patterns table code mk =
     concat (map (\<lambda>p. case js_match (regex p) code of [] \<Rightarrow> [] | m # ms \<Rightarrow> [mk p (m # ms)])
                 table)"

definition checkSecrets :: "string \<Rightarrow> violation list" where
  "checkSecrets code = for_patterns patterns_secrets code
     (\<lambda>p ms. \<lparr> vtype = ''hardcoded_secret'', pattern = Some (pat_name p),
        severity = ''CRITICAL'', message = ''Hardcoded '' @ pat_name p @ '' detected'',
        matches = Some (map maskSecret ms),
        suggestion = ''Use environment variables: process.env.SECRET_NAME'' \<rparr>)"

definition checkSQLInjection :: "string \<Rightarrow> violation list" where
  "checkSQLInjection code = for_patterns patterns_sqlInjection code
     (\<lambda>p ms. \<lparr> vtype = ''sql_injection'', pattern = None, severity = ''CRITICAL'',
        message = ''SQL injection vulnerability: string concatenation in query'',
        matches = Some (take 3 ms),
        suggestion = ''Use parameterized queries: db.query('' @ [CHR 0x22] @
          ''SELECT * FROM users WHERE id = ?'' @ [CHR 0x22] @ '', [id])'' \<rparr>)"

definition checkXSS :: "string \<Rightarrow> violation list" where
  "checkXSS code = for_patterns patterns_xss code
     (\<lambda>p ms. \<lparr> vtype = ''xss_vulnerability'', pattern = None, severity = ''CRITICAL'',
        message = ''XSS vulnerability: '' @ pat_name p, matches = None,
        suggestion = pat_suggestion p \<rparr>)"

definition checkCommandInjection :: "string \<Rightarrow> violation list" where
  "checkCommandInjection code = for_patterns patterns_commandInjection code
     (\<lambda>p ms. \<lparr> vtype = ''command_injection'', pattern = None, severity = ''CRITICAL'',
        message = ''Command injection vulnerability detected'', matches = None,
        suggestion = ''Use parameterized command execution or input sanitization'' \<rparr>)"

definition checkHashMapViolations :: "string \<Rightarrow> violation list" where
  "checkHashMapViolations code = for_patterns patterns_hashMap code
     (\<lambda>p ms. \<lparr> vtype = ''hashmap_performance'', pattern = None, severity = ''HIGH'',
        message = ''HashMap causes 40% performance regression vs FxHashMap'',
        matches = Some (take 5 ms),
        suggestion = ''Replace std::collections::HashMap with rustc_hash::FxHashMap'' \<rparr>)"

definition checkPerformanceAntiPatterns :: "string \<Rightarrow> violation list" where
  "checkPerformanceAntiPatterns code = for_patterns patterns_performance code
     (\<lambda>p ms. \<lparr> vtype = ''performance_antipattern'', pattern = Some (pat_name p),
        severity = ''MEDIUM'', message = pat_message p, matches = None,
        suggestion = pat_suggestion p \<rparr>)"

record pre_result =
  pre_ok :: bool                          \<comment> \<open>the key \<open>passed\<close>\<close>
  violations :: "violation list"
  criticalCount :: "nat option"
  totalCount :: "nat option"
  responseTime :: rat
  performanceCompliant :: "bool option"   \<comment> \<open>a key that \<open>validatePre\<close> never writes\<close>

definition updateAverageCheckTime :: "rat \<Rightarrow> pv_metrics \<Rightarrow> pv_metrics" where
  "updateAverageCheckTime newTime m =
     m\<lparr> averageCheckTime :=
          (averageCheckTime m * (of_nat (checksRun m) - 1) + newTime) / of_nat (checksRun m) \<rparr>"

definition collect_violations :: "validator_options \<Rightarrow> string \<Rightarrow> violation list" where
  "collect_violations options code =
     (if enableSecurityChecks options then
        checkSecrets code @ checkSQLInjection code @ checkXSS code @ checkCommandInjection code
      else []) @
     (if enablePerformanceChecks options then
        checkHashMapViolations code @ checkPerformanceAntiPatterns code
      else [])"

text \<open>
  \<open>validatePre(code)\<close>. The argument is \<open>None\<close> when it is not a string; \<open>elapsed\<close> is the
  difference of the two clock readings.
\<close>

definition validatePre ::
  "validator_options \<Rightarrow> rat \<Rightarrow> string option \<Rightarrow> pv_metrics \<Rightarrow> pre_result \<times> pv_metrics" where
  "validatePre options elapsed input m =
     (case input of
        None \<Rightarrow> (\<lparr> pre_ok = True, violations = [], criticalCount = None, totalCount = None,
                    responseTime = elapsed, performanceCompliant = None \<rparr>, m)
      | Some code \<Rightarrow>
          if code = [] then
            (\<lparr> pre_ok = True, violations = [], criticalCount = None, totalCount = None,
               responseTime = elapsed, performanceCompliant = None \<rparr>, m)
          else
            (let vs = collect_violations options code;
                 criticalViolations = filter (\<lambda>v. severity v = ''CRITICAL'') vs;
                 m1 = m\<lparr> checksRun := Suc (checksRun m),
                         violationsFound := violationsFound m + length vs \<rparr>
             in (\<lparr> pre_ok = (if pv_strictMode options then vs = []
                               else criticalViolations = []),
                    violations = vs,
                    criticalCount = Some (length criticalViolations),
                    totalCount = Some (length vs),
                    responseTime = elapsed, performanceCompliant = None \<rparr>,
                 updateAverageCheckTime elapsed m1)))"

definition is_quote :: "char \<Rightarrow> bool" where
  "is_quote c \<longleftrightarrow> c = CHR 0x22 \<or> c = CHR 0x27"


definition masked_form :: "string \<Rightarrow> char \<Rightarrow> string \<Rightarrow> char \<Rightarrow> string" where
  "masked_form h q1 v q2 =
     (if length v = 4 then h @ q1 # v @ [q2]
      else h @ [CHR 0x22] @ take 2 v @ replicate (min (length v - 4) 20) CHR ''*'' @
           drop (length v - 2) v @ [CHR 0x22])"


subsection \<open>The checks of \<open>validatePost\<close>\<close>

definition try_catch_rx :: rx where       \<comment> \<open>\<open>/try\s*\{[\s\S]*?\}\s*catch/\<close>\<close>
  "try_catch_rx = seqs [lit ''try'', Star ws, ch CHR ''{'', Lazy anything, ch CHR ''}'',
     Star ws, lit ''catch'']"

definition promise_catch_rx :: rx where   \<comment> \<open>\<open>/\.catch\s*\(/\<close>\<close>
  "promise_catch_rx = seqs [lit ''.catch'', Star ws, ch CHR ''('']"

definition async_rx :: rx where           \<comment> \<open>\<open>/async\s+function|async\s*\(/\<close>\<close>
  "async_rx = Alt (seqs [lit ''async'', many1 ws, lit ''function''])
                  (seqs [lit ''async'', Star ws, ch CHR ''('']) "

definition await_rx :: rx where           \<comment> \<open>\<open>/await\s+/\<close>\<close>
  "await_rx = seqs [lit ''await'', many1 ws]"

record error_handling =
  hasProperHandling :: bool
  eh_message :: string

definition checkErrorHandling :: "string \<Rightarrow> error_handling" where
  "checkErrorHandling code =
     (let hasTryCatch = test try_catch_rx code;
          hasPromiseCatch = test promise_catch_rx code;
          hasAsyncAwait = test async_rx code;
          hasAwait = test await_rx code;
          needsErrorHandling = (hasAsyncAwait \<or> hasAwait);
          proper = (hasTryCatch \<or> hasPromiseCatch \<or> \<not> needsErrorHandling)
      in \<lparr> hasProperHandling = proper,
           eh_message = (if needsErrorHandling \<and> \<not> proper
                         then ''Async code without proper error handling''
                         else ''Error handling present'') \<rparr>)"

definition ip_rx :: rx where      \<comment> \<open>\<open>/["']\d{1,3}\.\d{1,3}\.\d{1,3}\.\d{1,3}["']/g\<close>\<close>
  "ip_rx = seqs [quote, between 1 3 digit, ch CHR ''.'', between 1 3 digit, ch CHR ''.'',
     between 1 3 digit, ch CHR ''.'', between 1 3 digit, quote]"

definition url_rx :: rx where     \<comment> \<open>\<open>/["'](http|https):\/\/(?!localhost)[^"']+["']/g\<close>\<close>
  "url_rx = seqs [quote, Alt (lit ''http'') (lit ''https''), lit ''://'',
     NotAhead (lit ''localhost''), many1 not_quote, quote]"

definition port_rx :: rx where    \<comment> \<open>\<open>/:\s*["']\d{4,5}["']/g\<close>\<close>
  "port_rx = seqs [ch CHR '':'', Star ws, quote, between 4 5 digit, quote]"

record hardcoded_values =
  found :: bool
  hv_matches :: "string list"
  hv_message :: string

text \<open>The number in \<open>`Found ${matches.length} hardcoded value(s)`\<close> is printed in
  decimal.\<close>

fun digits_of :: "nat \<Rightarrow> string" where
  "digits_of n =
     (if n < 10 then [''0123456789'' ! n]
      else digits_of (n div 10) @ [''0123456789'' ! (n mod 10)])"

declare digits_of.simps [simp del]

definition checkHardcodedValues :: "string \<Rightarrow> hardcoded_values" where
  "checkHardcodedValues code =
     (let ms = js_match ip_rx code @ js_match url_rx code @ js_match port_rx code
      in \<lparr> found = (ms \<noteq> []), hv_matches = ms,
           hv_message = (if ms \<noteq> [] then ''Found '' @ digits_of (length ms) @
                                           '' hardcoded value(s)''
                         else ''No hardcoded values found'') \<rparr>)"

record memory_leaks =
  potential :: bool
  ml_message :: string

definition set_interval_rx :: rx where          \<comment> \<open>\<open>/setInterval\s*\(/\<close>\<close>
  "set_interval_rx = seqs [lit ''setInterval'', Star ws, ch CHR ''('']"

definition clear_interval_rx :: rx where        \<comment> \<open>\<open>/clearInterval/\<close>\<close>
  "clear_interval_rx = lit ''clearInterval''"

definition add_listener_rx :: rx where          \<comment> \<open>\<open>/addEventListener\s*\(/\<close>\<close>
  "add_listener_rx = seqs [lit ''addEventListener'', Star ws, ch CHR ''('']"

definition remove_listener_rx :: rx where       \<comment> \<open>\<open>/removeEventListener/\<close>\<close>
  "remove_listener_rx = lit ''removeEventListener''"

definition checkMemoryLeaks :: "string \<Rightarrow> memory_leaks" where
  "checkMemoryLeaks code =
     (let hasSetInterval = test set_interval_rx code;
          hasClearInterval = test clear_interval_rx code;
          hasAddEventListener = test add_listener_rx code;
          hasRemoveEventListener = test remove_listener_rx code;
          potentialLeak = ((hasSetInterval \<and> \<not> hasClearInterval) \<or>
                           (hasAddEventListener \<and> \<not> hasRemoveEventListener))
      in \<lparr> potential = potentialLeak,
           ml_message = (if potentialLeak
              then ''Potential memory leak: interval or event listener without cleanup''
              else ''No obvious memory leaks detected'') \<rparr>)"

text \<open>
  The argument of \<open>validatePost\<close>: a string, or an object whose \<open>code\<close>, \<open>content\<close> and
  \<open>data.code\<close> keys are strings where present.
\<close>

datatype post_input =
    PostString string
  | PostObject (obj_code: "string option") (obj_content: "string option")
               (obj_data_code: "string option")

definition some_nonempty :: "string option \<Rightarrow> bool" where
  "some_nonempty v = (case v of None \<Rightarrow> False | Some s \<Rightarrow> s \<noteq> [])"

definition extractCode :: "post_input \<Rightarrow> string option" where
  "extractCode result =
     (case result of
        PostString s \<Rightarrow> Some s
      | PostObject c t d \<Rightarrow>
          if some_nonempty c then c
          else if some_nonempty t then t
          else if some_nonempty d then d
          else None)"

record quality_issue =
  qi_type :: string
  qi_severity :: string
  qi_message :: string
  qi_matches :: "string list option"
  qi_suggestion :: string

record post_result =
  post_ok :: bool                          \<comment> \<open>the key \<open>passed\<close>\<close>
  qualityScore :: int
  post_result_issues :: "quality_issue list"   \<comment> \<open>the key \<open>issues\<close>\<close>
  post_responseTime :: rat

definition validatePost ::
  "validator_options \<Rightarrow> rat \<Rightarrow> post_input \<Rightarrow> pv_metrics \<Rightarrow> post_result \<times> pv_metrics" where
  "validatePost options elapsed result m =
     (let code = extractCode result;
          (issues, score) =
            (if some_nonempty code \<and> enableQualityChecks options then
               (let c = (case code of Some s \<Rightarrow> s | None \<Rightarrow> []);
                    errorHandling = checkErrorHandling c;
                    (i1, q1) =
                      (if \<not> hasProperHandling errorHandling then
                         ([\<lparr> qi_type = ''missing_error_handling'', qi_severity = ''MEDIUM'',
                             qi_message = eh_message errorHandling, qi_matches = None,
                             qi_suggestion = ''Add try-catch blocks or .catch() for promises'' \<rparr>],
                          100 - 15)
                       else ([], 100));
                    hardcoded = checkHardcodedValues c;
                    (i2, q2) =
                      (if found hardcoded then
                         (i1 @ [\<lparr> qi_type = ''hardcoded_values'', qi_severity = ''LOW'',
                             qi_message = hv_message hardcoded,
                             qi_matches = Some (hv_matches hardcoded),
                             qi_suggestion = ''Move hardcoded values to configuration'' \<rparr>],
                          q1 - 5)
                       else (i1, q1));
                    memoryLeaks = checkMemoryLeaks c
                in if potential memoryLeaks then
                     (i2 @ [\<lparr> qi_type = ''potential_memory_leak'', qi_severity = ''HIGH'',
                         qi_message = ml_message memoryLeaks, qi_matches = None,
                         qi_suggestion =
                           ''Ensure proper cleanup of intervals and event listeners'' \<rparr>],
                      q2 - 20)
                   else (i2, q2))
             else ([], 100))
      in (\<lparr> post_ok = (score \<ge> 70), qualityScore = max 0 score,
            post_result_issues = issues, post_responseTime = elapsed \<rparr>,
          m\<lparr> checksRun := Suc (checksRun m) \<rparr>))"

definition metrics0 :: pv_metrics where
  "metrics0 = \<lparr> checksRun = 0, violationsFound = 0, averageCheckTime = 0 \<rparr>"

text \<open>The three conditions in the words of the specification.\<close>

definition async_without_handling :: "string \<Rightarrow> bool" where
  "async_without_handling code \<longleftrightarrow>
     (test async_rx code \<or> test await_rx code) \<and>
     \<not> test try_catch_rx code \<and> \<not> test promise_catch_rx code"

definition hardcoded_literal_found :: "string \<Rightarrow> bool" where
  "hardcoded_literal_found code \<longleftrightarrow>
     js_match ip_rx code \<noteq> [] \<or> js_match url_rx code \<noteq> [] \<or> js_match port_rx code \<noteq> []"

definition leak_pattern_found :: "string \<Rightarrow> bool" where
  "leak_pattern_found code \<longleftrightarrow>
     (test set_interval_rx code \<and> \<not> test clear_interval_rx code) \<or>
     (test add_listener_rx code \<and> \<not> test remove_listener_rx code)"

definition leaky_code :: string where
  "leaky_code = ''await f(); setInterval(g, 9)''"

definition flawed_code :: string where
  "flawed_code = ''await f(); setInterval(g, 9); h = \"10.0.0.1\"''"

text \<open>\<open>new PatternValidator({ enableQualityChecks: false })\<close>.\<close>

definition quality_off_options :: validator_options where
  "quality_off_options = \<lparr> enableSecurityChecks = True, enablePerformanceChecks = True,
     enableQualityChecks = False, pv_strictMode = False \<rparr>"


section \<open>Truth scoring: \<open>TruthScoring\<close>\<close>


record truth_options =
  threshold :: rat
  warningThreshold :: rat
  criticalThreshold :: rat
  autoRollback :: bool

text \<open>\<open>new TruthScoring()\<close>.\<close>

definition default_truth_options :: truth_options where
  "default_truth_options = \<lparr> threshold = 95 / 100, warningThreshold = 85 / 100,
     criticalThreshold = 75 / 100, autoRollback = True \<rparr>"

record components =
  security :: rat
  quality :: rat
  performance :: rat

record score_result =
  overallScore :: rat
  score_passed :: bool                    \<comment> \<open>the key \<open>passed\<close>\<close>
  score_threshold :: rat
  score_components :: components
  status :: string
  score_violations :: "violation list"
  score_issues :: "quality_issue list"

record truth_metrics =
  totalScores :: nat
  passedCount :: nat
  failedCount :: nat
  averageScore :: rat
  rollbackCount :: nat

record truth_scoring =
  truth_opts :: truth_options
  validator_metrics :: pv_metrics         \<comment> \<open>of \<open>this.validator\<close>, a \<open>new PatternValidator()\<close>\<close>
  scoreHistory :: "(score_result \<times> rat) list"   \<comment> \<open>each record with its \<open>timestamp\<close>\<close>
  truth_metrics :: truth_metrics

definition count_severity :: "string \<Rightarrow> violation list \<Rightarrow> nat" where
  "count_severity sev vs = length (filter (\<lambda>v. severity v = sev) vs)"

definition calculateSecurityScore :: "pre_result \<Rightarrow> rat" where
  "calculateSecurityScore preResult =
     (if pre_ok preResult \<and> violations preResult = [] then 1
      else
        (let criticalCount = count_severity ''CRITICAL'' (violations preResult);
             highCount = count_severity ''HIGH'' (violations preResult);
             mediumCount = count_severity ''MEDIUM'' (violations preResult)
         in max 0 (1 - of_nat criticalCount * (3 / 10) - of_nat highCount * (15 / 100)
                     - of_nat mediumCount * (5 / 100))))"

definition getScoreStatus :: "truth_options \<Rightarrow> rat \<Rightarrow> string" where
  "getScoreStatus options s =
     (if s \<ge> 95 / 100 then ''excellent''
      else if s \<ge> warningThreshold options then ''good''
      else if s \<ge> criticalThreshold options then ''warning''
      else ''critical'')"

text \<open>\<open>this.scoreHistory.slice(-1000)\<close> once the history has more than 1000 entries.\<close>

definition trackScore :: "rat \<Rightarrow> score_result \<Rightarrow> truth_scoring \<Rightarrow> truth_scoring" where
  "trackScore now result t =
     (let m = truth_metrics t;
          m1 = m\<lparr> totalScores := Suc (totalScores m) \<rparr>;
          m2 = (if score_passed result then m1\<lparr> passedCount := Suc (passedCount m1) \<rparr>
                else m1\<lparr> failedCount := Suc (failedCount m1) \<rparr>);
          m3 = m2\<lparr> averageScore :=
                 (averageScore m2 * (of_nat (totalScores m2) - 1) + overallScore result) /
                 of_nat (totalScores m2) \<rparr>;
          h = scoreHistory t @ [(result, now)]
      in t\<lparr> truth_metrics := m3,
            scoreHistory := (if length h > 1000 then drop (length h - 1000) h else h) \<rparr>)"

text \<open>
  \<open>calculateScore(code)\<close> for a string \<open>code\<close>; no step of the \<open>try\<close> block raises on a
  string, so the \<open>catch\<close> branch is not taken. A key that is absent reads as \<open>undefined\<close>,
  which is falsy. \<open>preElapsed\<close> and \<open>postElapsed\<close> are the durations the two validator calls
  measure, \<open>now\<close> is \<open>Date.now()\<close>.
\<close>

definition calculateScore ::
  "rat \<Rightarrow> rat \<Rightarrow> rat \<Rightarrow> string \<Rightarrow> truth_scoring \<Rightarrow> score_result \<times> truth_scoring" where
  "calculateScore preElapsed postElapsed now code t =
     (let (preResult, m1) =
            validatePre default_validator_options preElapsed (Some code) (validator_metrics t);
          (postResult, m2) =
            validatePost default_validator_options postElapsed
              (PostObject (Some code) None None) m1;
          securityScore = calculateSecurityScore preResult;
          qualityScore = of_int (qualityScore postResult) / 100;
          performanceScore =
            (if performanceCompliant preResult = Some True then 1 else 8 / 10);
          overall = securityScore * (5 / 10) + qualityScore * (3 / 10) +
                    performanceScore * (2 / 10);
          result = \<lparr> overallScore = round3 overall,
                     score_passed = (overall \<ge> threshold (truth_opts t)),
                     score_threshold = threshold (truth_opts t),
                     score_components = \<lparr> security = round3 securityScore,
                        quality = round3 qualityScore,
                        performance = round3 performanceScore \<rparr>,
                     status = getScoreStatus (truth_opts t) overall,
                     score_violations = violations preResult,
                     score_issues = post_result_issues postResult \<rparr>
      in (result, trackScore now result (t\<lparr> validator_metrics := m2 \<rparr>)))"

definition truth0 :: truth_scoring where
  "truth0 = \<lparr> truth_opts = default_truth_options, validator_metrics = metrics0,
     scoreHistory = [],
     truth_metrics = \<lparr> totalScores = 0, passedCount = 0, failedCount = 0,
        averageScore = 0, rollbackCount = 0 \<rparr> \<rparr>"


chapter \<open>Properties\<close>

section \<open>Properties of the orchestrator\<close>

lemma executor_tasks_append:
  "executor_tasks (xs @ ys) = executor_tasks xs @ executor_tasks ys"
  by (induction xs rule: executor_tasks.induct) auto

text \<open>What one pass through the loop body does to the log of executor invocations, and
  which exit it takes when the executor raised.\<close>

lemma attempt_body_connected:
  assumes "connected a"
  shows "case attempt_body exec post maxR a task n of
           Again a' t' r \<Rightarrow> connected a' \<and> exec n task \<noteq> Inl e \<and>
              executor_tasks (calls a') = executor_tasks (calls a) @ [task]
         | Leave a' r \<Rightarrow> exec n task \<noteq> Inl e \<and>
              executor_tasks (calls a') = executor_tasks (calls a) @ [task]
         | Caught a' e' \<Rightarrow> (exec n task = Inl e \<longrightarrow> e' = e) \<and>
              executor_tasks (calls a') = executor_tasks (calls a) @ [task]"
  using assms
  by (simp add: attempt_body_def run_attempt_def Let_def log_call_def executor_tasks_append
           split: sum.split option.split exec_result.split)

lemma loop_raise:
  assumes "connected a"
  shows "execution_loop exec post maxR a task n lr = (a', out) \<Longrightarrow>
    \<exists>ts. executor_tasks (calls a') = executor_tasks (calls a) @ ts \<and>
      (\<forall>k e. k < length ts \<and> exec (Suc (n + k)) (ts ! k) = Inl e \<longrightarrow>
             Suc k = length ts \<and> out = Inl e)"
  using assms
proof (induction "nat (maxR + 1 - int n)" arbitrary: n a task lr)
  case 0
  then have "\<not> int n \<le> maxR" by simp
  with 0 show ?case
    by (subst (asm) execution_loop.simps) auto
next
  case (Suc m)
  then have le: "int n \<le> maxR" by simp
  have m: "m = nat (maxR + 1 - int (Suc n))" using Suc.hyps(2) by simp
  note IH = Suc.hyps(1)[OF m]
  note body = attempt_body_connected[OF Suc.prems(2), where exec=exec and post=post
      and maxR=maxR and task=task and n="Suc n"]
  show ?case
  proof (cases "attempt_body exec post maxR a task (Suc n)")
    case (Again a2 t2 r2)
    with body have c2: "connected a2" and ne: "\<And>e. exec (Suc n) task \<noteq> Inl e"
      and e2: "executor_tasks (calls a2) = executor_tasks (calls a) @ [task]"
      by simp_all
    from Suc.prems(1) le Again
    have l2: "execution_loop exec post maxR a2 t2 (Suc n) (Some r2) = (a', out)"
      by (simp add: execution_loop.simps[of exec post maxR a task n])
    from IH[OF l2 c2] obtain ts where
      ts: "executor_tasks (calls a') = executor_tasks (calls a2) @ ts"
      and r: "\<forall>k e. k < length ts \<and> exec (Suc (Suc n + k)) (ts ! k) = Inl e \<longrightarrow>
             Suc k = length ts \<and> out = Inl e" by blast
    have "\<forall>k e. k < length (task # ts) \<and> exec (Suc (n + k)) ((task # ts) ! k) = Inl e \<longrightarrow>
             Suc k = length (task # ts) \<and> out = Inl e"
    proof (intro allI impI)
      fix k e
      assume h: "k < length (task # ts) \<and> exec (Suc (n + k)) ((task # ts) ! k) = Inl e"
      show "Suc k = length (task # ts) \<and> out = Inl e"
      proof (cases k)
        case 0 with h ne show ?thesis by simp
      next
        case (Suc j)
        with h have "j < length ts \<and> exec (Suc (Suc n + j)) (ts ! j) = Inl e" by simp
        with r have "Suc j = length ts \<and> out = Inl e" by blast
        with Suc show ?thesis by simp
      qed
    qed
    with ts e2 show ?thesis by (intro exI[of _ "task # ts"]) simp
  next
    case (Leave a2 r2)
    with body have ne: "\<And>e. exec (Suc n) task \<noteq> Inl e"
      and e2: "executor_tasks (calls a2) = executor_tasks (calls a) @ [task]"
      by simp_all
    from Suc.prems(1) le Leave have "a' = a2"
      by (simp add: execution_loop.simps[of exec post maxR a task n])
    with e2 ne show ?thesis by (intro exI[of _ "[task]"]) simp
  next
    case (Caught a2 e2)
    with body have ne: "\<And>e. exec (Suc n) task = Inl e \<Longrightarrow> e2 = e"
      and t2: "executor_tasks (calls a2) = executor_tasks (calls a) @ [task]"
      by simp_all
    from Suc.prems(1) le Caught have "a' = a2" "out = Inl e2"
      by (simp_all add: execution_loop.simps[of exec post maxR a task n])
    with t2 ne show ?thesis by (intro exI[of _ "[task]"]) simp
  qed
qed

lemma finish_fst: "fst (finish maxR out) = fst out"
  by (cases out) (auto simp: finish_def split: sum.splits)

text \<open>Either \<open>orchestrate\<close> reaches the loop, from an adapter that has invoked the executor
  no more often than at the call, or it returns without any executor invocation.\<close>

lemma orchestrate_cases:
  assumes "orchestrate exec a task options = (a', out)"
  shows "(\<exists>a1 lo. connected a1 = connected a \<and>
            executor_tasks (calls a1) = executor_tasks (calls a) \<and>
            execution_loop exec (postValidation options)
               (config_maxRetries (opt_maxRetries options)) a1 task 0 None = (a', lo) \<and>
            finish (config_maxRetries (opt_maxRetries options)) (a', lo) = (a', out))
         \<or> executor_tasks (calls a') = executor_tasks (calls a)"
proof -
  let ?G = ?thesis
  let ?maxR = "config_maxRetries (opt_maxRetries options)"
  let ?a = "a\<lparr> tasksOrchestrated := Suc (tasksOrchestrated a) \<rparr>"
  let ?a1 = "log_call (PreValidationCall task)
               (?a\<lparr> totalValidations := Suc (totalValidations ?a) \<rparr>)"
  have run: "\<And>a1. finish ?maxR
        (execution_loop exec (postValidation options) ?maxR a1 task 0 None) = (a', out)
     \<Longrightarrow> connected a1 = connected a
     \<Longrightarrow> executor_tasks (calls a1) = executor_tasks (calls a) \<Longrightarrow> ?G"
  proof -
    fix a1
    assume f: "finish ?maxR
        (execution_loop exec (postValidation options) ?maxR a1 task 0 None) = (a', out)"
      and c: "connected a1 = connected a"
      and t: "executor_tasks (calls a1) = executor_tasks (calls a)"
    obtain a2 lo where
      l: "execution_loop exec (postValidation options) ?maxR a1 task 0 None = (a2, lo)"
      by (cases "execution_loop exec (postValidation options) ?maxR a1 task 0 None")
    with f have "a2 = a'" using finish_fst[of ?maxR "(a2, lo)"] by simp
    with l f c t show ?G by auto
  qed
  show ?thesis
  proof (cases "preValidation options")
    case None
    with assms have "finish ?maxR
        (execution_loop exec (postValidation options) ?maxR ?a task 0 None) = (a', out)"
      by (simp add: orchestrate_def Let_def)
    then show ?thesis by (rule run) simp_all
  next
    case (Some pre)
    have a1: "connected ?a1 = connected a"
      "executor_tasks (calls ?a1) = executor_tasks (calls a)"
      by (simp_all add: log_call_def executor_tasks_append)
    show ?thesis
    proof (cases "pre task")
      case (Inl e)
      with Some assms have "a' = ?a1" by (simp add: orchestrate_def Let_def)
      with a1 show ?thesis by simp
    next
      case (Inr r)
      show ?thesis
      proof (cases "\<exists>p. r = Some p \<and> \<not> pre_passed p")
        case True
        with Some Inr assms
        have "a' = ?a1\<lparr> blockedOperations := Suc (blockedOperations ?a1) \<rparr>"
          by (auto simp: orchestrate_def Let_def)
        with a1 show ?thesis by (simp add: log_call_def executor_tasks_append)
      next
        case False
        with Some Inr assms
        have "finish ?maxR
            (execution_loop exec (postValidation options) ?maxR ?a1 task 0 None) = (a', out)"
          by (cases r) (auto simp: orchestrate_def Let_def)
        then show ?thesis using a1 by (rule run)
      qed
    qed
  qed
qed

lemma orchestrate_raising_eval:
  "orchestrate raising_executor adapter0 ''task'' (options_retry 3) =
   (adapter0\<lparr> tasksOrchestrated := 1, calls := [ExecutorCall ''task''] \<rparr>,
    Inr (empty_result\<lparr> success := Some False,
           error := Some (Thrown ''Command failed with code 1'') \<rparr>))"
  by (simp add: orchestrate_def options_retry_def adapter0_def raising_executor_def
        config_maxRetries_def execution_loop.simps attempt_body_def run_attempt_def
        log_call_def finish_def)

text \<open>
  Claim C3, as the code has it. When the external executor raises on an attempt of a
  connected adapter, the error is caught by the loop's \<open>catch\<close>, which returns at once:
  the raising invocation is the last executor invocation of the call, and the result is
  \<open>{success: false, error}\<close>, without \<open>attempts\<close> and \<open>finalStatus\<close>. The failed attempt is not
  retried and is not counted against \<open>maxRetries\<close>.
\<close>

theorem executor_raise_ends_orchestration:
  assumes conn: "connected a"
    and run: "orchestrate exec a task options = (a', out)"
    and log: "executor_tasks (calls a') = executor_tasks (calls a) @ ts"
    and k: "k < length ts" and raise: "exec (Suc k) (ts ! k) = Inl e"
  shows "Suc k = length ts \<and>
         out = Inr (empty_result\<lparr> success := Some False, error := Some e \<rparr>)"
proof -
  from orchestrate_cases[OF run] k log
  obtain a1 lo where c1: "connected a1 = connected a"
    and t1: "executor_tasks (calls a1) = executor_tasks (calls a)"
    and l: "execution_loop exec (postValidation options)
              (config_maxRetries (opt_maxRetries options)) a1 task 0 None = (a', lo)"
    and f: "finish (config_maxRetries (opt_maxRetries options)) (a', lo) = (a', out)"
    by auto
  from c1 conn have "connected a1" by simp
  from loop_raise[OF this l] obtain ts' where
    ts': "executor_tasks (calls a') = executor_tasks (calls a1) @ ts'"
    and r: "\<forall>k e. k < length ts' \<and> exec (Suc (0 + k)) (ts' ! k) = Inl e \<longrightarrow>
             Suc k = length ts' \<and> lo = Inl e" by blast
  from ts' t1 log have "ts' = ts" by simp
  with r k raise have "Suc k = length ts \<and> lo = Inl e" by simp
  with f show ?thesis by (simp add: finish_def)
qed

theorem executor_raise_ends_orchestration_witness:
  "connected adapter0 \<and>
   orchestrate raising_executor adapter0 ''task'' (options_retry 3) =
     (adapter0\<lparr> tasksOrchestrated := 1, calls := [ExecutorCall ''task''] \<rparr>,
      Inr (empty_result\<lparr> success := Some False,
             error := Some (Thrown ''Command failed with code 1'') \<rparr>)) \<and>
   executor_tasks (calls (adapter0\<lparr> tasksOrchestrated := 1,
       calls := [ExecutorCall ''task''] \<rparr>)) = executor_tasks (calls adapter0) @ [''task''] \<and>
   (0::nat) < length [''task''] \<and>
   raising_executor (Suc 0) ([''task''] ! 0) = Inl (Thrown ''Command failed with code 1'') \<and>
   Suc 0 = length [''task'']"
proof -
  have h1: "connected adapter0" by (simp add: adapter0_def)
  note h2 = orchestrate_raising_eval
  have h3: "executor_tasks (calls (adapter0\<lparr> tasksOrchestrated := 1,
       calls := [ExecutorCall ''task''] \<rparr>)) = executor_tasks (calls adapter0) @ [''task'']"
    by (simp add: adapter0_def)
  have h4: "(0::nat) < length [''task'']" by simp
  have h5: "raising_executor (Suc 0) ([''task''] ! 0) =
      Inl (Thrown ''Command failed with code 1'')"
    by (simp add: raising_executor_def)
  from executor_raise_ends_orchestration[OF h1 h2 h3 h4 h5] h1 h2 h3 h4 h5
  show ?thesis by simp
qed

text \<open>
  Claim C3 as stated fails: with \<open>maxRetries = 3\<close> and an executor that raises, the call
  ends after a single executor invocation with an error result; no further attempt is made.
\<close>

theorem executor_raise_not_retried:
  "orchestrate raising_executor adapter0 ''task'' (options_retry 3) =
   (adapter0\<lparr> tasksOrchestrated := 1, calls := [ExecutorCall ''task''] \<rparr>,
    Inr (empty_result\<lparr> success := Some False,
           error := Some (Thrown ''Command failed with code 1'') \<rparr>))"
  by (rule orchestrate_raising_eval)

text \<open>
  Towards claim C4: for every \<open>maxRetries = N \<ge> 1\<close>, a connected adapter, an executor that
  always returns an object and a post-validation that always reports failure with an issue
  list, the call makes exactly \<open>N + 1\<close> executor invocations and returns \<open>attempts = N + 1\<close>
  with \<open>finalStatus = max_retries_exceeded\<close>.
\<close>

lemma attempt_body_failing:
  assumes "connected a"
    and "exec n task = Inr (JsonObject r)"
    and "post n (JsonObject r) =
           Inr (Some \<lparr> post_passed = False, post_issues = Some iss \<rparr>)"
  shows "\<exists>a2 t2 r2. attempt_body exec (Some post) maxR a task n = Again a2 t2 r2 \<and>
           connected a2 \<and> executor_tasks (calls a2) = executor_tasks (calls a) @ [task]"
  using assms
  by (simp add: attempt_body_def run_attempt_def Let_def log_call_def executor_tasks_append)

lemma loop_all_fail:
  assumes ex: "\<forall>n t. \<exists>r. exec n t = Inr (JsonObject r)"
    and po: "\<forall>n r. \<exists>iss. post n r =
               Inr (Some \<lparr> post_passed = False, post_issues = Some iss \<rparr>)"
  shows "connected a \<Longrightarrow> int n \<le> maxR + 1 \<Longrightarrow>
    \<exists>a' l. execution_loop exec (Some post) maxR a task n lr =
              (a', Inr (False, nat (maxR + 1), l)) \<and>
      length (executor_tasks (calls a')) =
        length (executor_tasks (calls a)) + (nat (maxR + 1) - n)"
proof (induction "nat (maxR + 1 - int n)" arbitrary: n a task lr)
  case 0
  then have gt: "\<not> int n \<le> maxR" and n: "n = nat (maxR + 1)" by simp_all
  from gt have "execution_loop exec (Some post) maxR a task n lr = (a, Inr (False, n, lr))"
    by (simp add: execution_loop.simps[of exec "Some post" maxR a task n lr])
  with n show ?case by simp
next
  case (Suc m)
  then have le: "int n \<le> maxR" by simp
  have m: "m = nat (maxR + 1 - int (Suc n))" using Suc.hyps(2) by simp
  from ex obtain r where r: "exec (Suc n) task = Inr (JsonObject r)" by blast
  from po obtain iss where
    p: "post (Suc n) (JsonObject r) =
          Inr (Some \<lparr> post_passed = False, post_issues = Some iss \<rparr>)"
    by blast
  from attempt_body_failing[where exec=exec and post=post and n="Suc n" and task=task
         and a=a and r=r and iss=iss and maxR=maxR] Suc.prems(1) r p
  obtain a2 t2 r2 where
    b: "attempt_body exec (Some post) maxR a task (Suc n) = Again a2 t2 r2"
    and c2: "connected a2"
    and e2: "executor_tasks (calls a2) = executor_tasks (calls a) @ [task]" by blast
  have le2: "int (Suc n) \<le> maxR + 1" using le by simp
  from Suc.hyps(1)[OF m c2 le2, of t2 "Some r2"] obtain a' l where
    l: "execution_loop exec (Some post) maxR a2 t2 (Suc n) (Some r2) =
          (a', Inr (False, nat (maxR + 1), l))"
    and n: "length (executor_tasks (calls a')) =
          length (executor_tasks (calls a2)) + (nat (maxR + 1) - Suc n)"
    by blast
  have "execution_loop exec (Some post) maxR a task n lr =
          (a', Inr (False, nat (maxR + 1), l))"
    using le b l by (simp add: execution_loop.simps[of exec "Some post" maxR a task n lr])
  moreover have "length (executor_tasks (calls a')) =
      length (executor_tasks (calls a)) + (nat (maxR + 1) - n)"
    using n e2 le by simp
  ultimately show ?case by blast
qed

lemma retry_bound_nonzero:
  assumes conn: "connected a"
    and ex: "\<forall>n t. \<exists>r. exec n t = Inr (JsonObject r)"
    and po: "\<forall>n r. \<exists>iss. post n r =
               Inr (Some \<lparr> post_passed = False, post_issues = Some iss \<rparr>)"
    and N: "1 \<le> N"
  shows "\<exists>a' res. orchestrate exec a task
            \<lparr> preValidation = None, postValidation = Some post, opt_maxRetries = Some N \<rparr>
          = (a', Inr res) \<and>
         attempts res = Some (nat (N + 1)) \<and>
         finalStatus res = Some ''max_retries_exceeded'' \<and>
         length (executor_tasks (calls a')) =
           length (executor_tasks (calls a)) + nat (N + 1)"
proof -
  let ?a = "a\<lparr> tasksOrchestrated := Suc (tasksOrchestrated a) \<rparr>"
  have c: "connected ?a" using conn by simp
  have z: "int 0 \<le> N + 1" using N by simp
  from loop_all_fail[OF ex po c z, of task None] obtain a' l where
    l: "execution_loop exec (Some post) N ?a task 0 None =
          (a', Inr (False, nat (N + 1), l))"
    and n: "length (executor_tasks (calls a')) =
          length (executor_tasks (calls ?a)) + (nat (N + 1) - 0)"
    by blast
  have m: "config_maxRetries (Some N) = N" using N by (simp add: config_maxRetries_def)
  show ?thesis using l n m
    by (simp add: orchestrate_def Let_def finish_def empty_result_def)
qed

text \<open>
  Claim C4 at \<open>maxRetries = 0\<close>: \<open>options.maxRetries || 3\<close> replaces the 0 by 3, so a
  post-validation that always fails is retried three times: four executor invocations and
  \<open>attempts = 4\<close>, where the claim has one invocation and \<open>attempts = 1\<close>.
\<close>

theorem zero_maxRetries_runs_four_attempts:
  "map_sum id attempts
     (snd (orchestrate ok_executor adapter0 ''task'' (options_retry 0))) = Inr (Some 4) \<and>
   map_sum id maxRetries
     (snd (orchestrate ok_executor adapter0 ''task'' (options_retry 0))) = Inr (Some 3) \<and>
   length (executor_tasks (calls (fst
     (orchestrate ok_executor adapter0 ''task'' (options_retry 0))))) = 4"
  by (simp add: orchestrate_def options_retry_def adapter0_def ok_executor_def
        failing_post_def config_maxRetries_def execution_loop.simps attempt_body_def
        run_attempt_def log_call_def finish_def empty_result_def Let_def)

text \<open>
  Claim C7, as the code has it. When the supplied pre-validation function reports failure,
  it has been invoked exactly once, the external executor is never invoked, the loop is not
  entered, and the result is \<open>{success: false, blocked: true, reason}\<close>; it carries neither
  \<open>attempts\<close> nor \<open>finalStatus\<close>.
\<close>

theorem failing_preValidation_blocks:
  assumes "preValidation options = Some pre"
    and "pre task = Inr (Some preResult)"
    and "\<not> pre_passed preResult"
  shows "orchestrate exec a task options =
     (a\<lparr> tasksOrchestrated := Suc (tasksOrchestrated a),
         totalValidations := Suc (totalValidations a),
         blockedOperations := Suc (blockedOperations a),
         calls := calls a @ [PreValidationCall task] \<rparr>,
      Inr \<lparr> success = Some False, blocked = Some True,
            reason = Some (blocked_reason preResult), error = None, spread = None,
            attempts = None, maxRetries = None, finalStatus = None \<rparr>)"
  using assms by (simp add: orchestrate_def Let_def log_call_def empty_result_def)

theorem failing_preValidation_blocks_witness:
  "preValidation options_blocked = Some failing_pre \<and>
   failing_pre ''task'' = Inr (Some \<lparr> pre_passed = False, pre_violations = None \<rparr>) \<and>
   \<not> pre_passed \<lparr> pre_passed = False, pre_violations = None \<rparr> \<and>
   orchestrate ok_executor adapter0 ''task'' options_blocked =
     (\<lparr> connected = True, tasksOrchestrated = 1, totalValidations = 1,
        blockedOperations = 1, calls = [PreValidationCall ''task''] \<rparr>,
      Inr \<lparr> success = Some False, blocked = Some True,
            reason = Some ''Pre-validation failed'', error = None, spread = None,
            attempts = None, maxRetries = None, finalStatus = None \<rparr>)"
proof -
  have h1: "preValidation options_blocked = Some failing_pre"
    by (simp add: options_blocked_def)
  have h2: "failing_pre ''task'' =
      Inr (Some \<lparr> pre_passed = False, pre_violations = None \<rparr>)"
    by (simp add: failing_pre_def)
  have h3: "\<not> pre_passed \<lparr> pre_passed = False, pre_violations = None \<rparr>" by simp
  from failing_preValidation_blocks[OF h1 h2 h3, of ok_executor adapter0] h1 h2
  show ?thesis by (simp add: adapter0_def blocked_reason_def)
qed

text \<open>
  Claim C7 as stated fails in its last part: the blocked result has no \<open>finalStatus\<close> key,
  so it does not carry \<open>finalStatus = "blocked"\<close>.
\<close>

theorem blocked_result_has_no_finalStatus:
  "map_sum id finalStatus
     (snd (orchestrate ok_executor adapter0 ''task'' options_blocked)) = Inr None \<and>
   map_sum id blocked
     (snd (orchestrate ok_executor adapter0 ''task'' options_blocked)) = Inr (Some True)"
  by (simp add: orchestrate_def options_blocked_def failing_pre_def adapter0_def
        log_call_def empty_result_def Let_def)


section \<open>Properties of the phase state machine\<close>

lemma round3_mono: "x \<le> y \<Longrightarrow> round3 x \<le> round3 y"
  unfolding round3_def by (simp add: round_mono divide_right_mono)

lemma round3_of_int: "round3 (of_int k / 1000) = of_int k / 1000"
  unfolding round3_def by simp

lemma round3_gate:
  assumes "g \<in> {85 / 100, 90 / 100, 95 / 100}"
  shows "round3 g = g"
proof -
  have "g = of_int 850 / 1000 \<or> g = of_int 900 / 1000 \<or> g = of_int 950 / 1000"
    using assms by auto
  then show ?thesis using round3_of_int by metis
qed

lemma lookup_phase_own:
  "lookup_phase phase = OwnPhase c \<Longrightarrow>
     qualityGate c \<in> {85 / 100, 90 / 100, 95 / 100} \<and>
     (phase = ''specification'' \<or> phase = ''pseudocode'' \<longrightarrow> qualityGate c = 85 / 100) \<and>
     (phase = ''architecture'' \<or> phase = ''completion'' \<longrightarrow> qualityGate c = 90 / 100) \<and>
     (phase = ''refinement'' \<longrightarrow> qualityGate c = 95 / 100)"
  by (auto simp: lookup_phase_def phases_def split: option.splits if_splits)

lemma validatePhase_frame:
  assumes "validatePhase toNumber show phase outs validator s = (s', out)"
  shows "currentWorkflow s' = currentWorkflow s \<or>
         (\<exists>w c r. currentWorkflow s = Some w \<and> currentPhase w = Some phase \<and>
            lookup_phase phase = OwnPhase c \<and> out = Inr (Validated r) \<and> passed r \<and>
            currentWorkflow s' = Some (w\<lparr> completedPhases := completedPhases w @ [phase],
                 phaseResults := (phaseResults w)(phase \<mapsto> r),
                 currentPhase := getNextPhase phase \<rparr>))"
  using assms
  by (auto simp: validatePhase_def Let_def
           split: phase_lookup.splits sum.splits prod.splits option.splits if_splits
                  validator_result.splits)

lemma passed_score:
  assumes "validatePhase toNumber show phase outs validator s = (s', Inr (Validated r))"
  shows "res_qualityGate r \<in> {85 / 100, 90 / 100, 95 / 100} \<and>
         (\<exists>c. lookup_phase phase = OwnPhase c \<and> res_qualityGate r = qualityGate c) \<and>
         (passed r \<longrightarrow> res_qualityGate r \<le> score r \<and> remediation r = None) \<and>
         (\<not> passed r \<longrightarrow> remediation r = Some (getRemediationSteps (issues r)) \<and>
              currentWorkflow s' = currentWorkflow s)"
proof -
  from assms obtain c where c: "lookup_phase phase = OwnPhase c"
    by (auto simp: validatePhase_def split: phase_lookup.splits)
  note g = lookup_phase_own[OF c]
  from assms c obtain x where r: "res_qualityGate r = qualityGate c"
    and p: "passed r = (qualityGate c \<le> x)" and sc: "score r = round3 x"
    and rem: "passed r \<longrightarrow> remediation r = None"
    and nrem: "\<not> passed r \<longrightarrow> remediation r = Some (getRemediationSteps (issues r)) \<and>
              currentWorkflow s' = currentWorkflow s"
    by (auto simp: validatePhase_def Let_def
           split: sum.splits prod.splits option.splits if_splits validator_result.splits)
  have "passed r \<longrightarrow> res_qualityGate r \<le> score r"
  proof
    assume "passed r"
    with p have "round3 (qualityGate c) \<le> round3 x" by (simp add: round3_mono)
    with g r sc show "res_qualityGate r \<le> score r" by (simp add: round3_gate)
  qed
  with g r c rem nrem show ?thesis by simp
qed

lemma round3_one: "round3 1 = 1"
  using round3_of_int[of 1000] by simp

lemma sparc0_workflow: "currentWorkflow sparc0 = Some workflow0"
  by (simp add: sparc0_def startWorkflow_def workflow0_def)

lemma getNextPhase_sequence:
  "getNextPhase ''specification'' = Some ''pseudocode''"
  "getNextPhase ''pseudocode'' = Some ''architecture''"
  "getNextPhase ''architecture'' = Some ''refinement''"
  "getNextPhase ''refinement'' = Some ''completion''"
  "getNextPhase ''completion'' = None"
  by (simp_all add: getNextPhase_def phases_def Let_def)

lemma validate_spec_eval:
  "validatePhase no_toNumber show0 ''specification'' full_spec_outputs None sparc0 =
     (sparc0\<lparr> currentWorkflow := Some (workflow0\<lparr>
          completedPhases := [''specification''],
          phaseResults := [''specification'' \<mapsto> spec_passed],
          currentPhase := Some ''pseudocode'' \<rparr>),
        sparc_events := sparc_events sparc0 @ [PhaseCompleted ''specification''] \<rparr>,
      Inr (Validated spec_passed))"
  by (simp add: validatePhase_def lookup_phase_def phases_def full_spec_outputs_def
        validatePhaseSpecific_def Let_def round3_one getNextPhase_sequence sparc0_workflow
        spec_passed_def workflow0_def)

lemma validate_pseudocode_eval:
  "validatePhase no_toNumber show0 ''pseudocode'' all_outputs None sparc0 =
     (sparc0\<lparr> sparc_events := sparc_events sparc0 @ [PhaseCompleted ''pseudocode''] \<rparr>,
      Inr (Validated pseudocode_passed))"
  by (simp add: validatePhase_def lookup_phase_def phases_def all_outputs_def
        validatePhaseSpecific_def Let_def round3_one getNextPhase_sequence sparc0_workflow
        pseudocode_passed_def workflow0_def)

text \<open>
  Claim C8. For an active workflow, \<open>validatePhase\<close> changes the workflow only when the
  phase passed, i.e. its score reached the quality gate, and then the current phase becomes
  the next one of the fixed sequence; the gate is 0.85 for specification and pseudocode,
  0.90 for architecture and completion, 0.95 for refinement; whenever the returned score is
  below the gate the workflow is unchanged and the result carries the remediation steps.
  (Scores are exact rationals here; the source computes them in doubles.)
\<close>

theorem phase_gate:
  assumes wf: "currentWorkflow s = Some w"
    and run: "validatePhase toNumber show phase outs validator s = (s', out)"
  shows "(currentWorkflow s' \<noteq> Some w \<longrightarrow>
            (\<exists>r. out = Inr (Validated r) \<and> passed r \<and> res_qualityGate r \<le> score r \<and>
                 currentPhase w = Some phase \<and>
                 currentWorkflow s' = Some (w\<lparr> completedPhases := completedPhases w @ [phase],
                     phaseResults := (phaseResults w)(phase \<mapsto> r),
                     currentPhase := getNextPhase phase \<rparr>))) \<and>
         (\<forall>r. out = Inr (Validated r) \<longrightarrow>
            (phase = ''specification'' \<or> phase = ''pseudocode'' \<longrightarrow>
               res_qualityGate r = 85 / 100) \<and>
            (phase = ''architecture'' \<or> phase = ''completion'' \<longrightarrow>
               res_qualityGate r = 90 / 100) \<and>
            (phase = ''refinement'' \<longrightarrow> res_qualityGate r = 95 / 100) \<and>
            (score r < res_qualityGate r \<longrightarrow>
               currentWorkflow s' = Some w \<and>
               remediation r = Some (getRemediationSteps (issues r))))"
proof (intro conjI impI allI)
  assume "currentWorkflow s' \<noteq> Some w"
  with validatePhase_frame[OF run] wf obtain c r where
    r: "currentPhase w = Some phase" "out = Inr (Validated r)" "passed r"
      "currentWorkflow s' = Some (w\<lparr> completedPhases := completedPhases w @ [phase],
                     phaseResults := (phaseResults w)(phase \<mapsto> r),
                     currentPhase := getNextPhase phase \<rparr>)"
    by auto
  from run r(2) have run': "validatePhase toNumber show phase outs validator s =
      (s', Inr (Validated r))" by simp
  from passed_score[OF run'] r(3) have "res_qualityGate r \<le> score r" by simp
  with r show "\<exists>r. out = Inr (Validated r) \<and> passed r \<and> res_qualityGate r \<le> score r \<and>
                 currentPhase w = Some phase \<and>
                 currentWorkflow s' = Some (w\<lparr> completedPhases := completedPhases w @ [phase],
                     phaseResults := (phaseResults w)(phase \<mapsto> r),
                     currentPhase := getNextPhase phase \<rparr>)"
    by blast
next
  fix r assume out: "out = Inr (Validated r)"
  with run have run': "validatePhase toNumber show phase outs validator s =
      (s', Inr (Validated r))" by simp
  from passed_score[OF run'] obtain c where
    c: "lookup_phase phase = OwnPhase c" "res_qualityGate r = qualityGate c" by blast
  note g = lookup_phase_own[OF c(1)]
  {
    assume "phase = ''specification'' \<or> phase = ''pseudocode''"
    with g c show "res_qualityGate r = 85 / 100" by simp
  next
    assume "phase = ''architecture'' \<or> phase = ''completion''"
    with g c show "res_qualityGate r = 90 / 100" by simp
  next
    assume "phase = ''refinement''"
    with g c show "res_qualityGate r = 95 / 100" by simp
  next
    assume lt: "score r < res_qualityGate r"
    with passed_score[OF run'] have np: "\<not> passed r" by auto
    with passed_score[OF run'] wf show "currentWorkflow s' = Some w" by simp
    from np passed_score[OF run'] show "remediation r = Some (getRemediationSteps (issues r))"
      by simp
  }
qed

theorem phase_gate_witness:
  "currentWorkflow sparc0 = Some workflow0 \<and>
   validatePhase no_toNumber show0 ''specification'' full_spec_outputs None sparc0 =
     (sparc0\<lparr> currentWorkflow := Some (workflow0\<lparr>
          completedPhases := [''specification''],
          phaseResults := [''specification'' \<mapsto> spec_passed],
          currentPhase := Some ''pseudocode'' \<rparr>),
        sparc_events := sparc_events sparc0 @ [PhaseCompleted ''specification''] \<rparr>,
      Inr (Validated spec_passed)) \<and>
   res_qualityGate spec_passed = 85 / 100 \<and>
   \<not> score spec_passed < res_qualityGate spec_passed"
proof -
  note h1 = sparc0_workflow
  note h2 = validate_spec_eval
  from phase_gate[OF h1 h2] h1 h2 show ?thesis
    by (simp add: spec_passed_def)
qed

text \<open>
  Claim C10. When no workflow is active, or the validated phase is not the workflow's
  current phase, \<open>validatePhase\<close> leaves the workflow (current phase, completed phases and
  phase results) as it was, whatever the outcome of the validation.
\<close>

theorem other_phase_leaves_workflow:
  assumes "validatePhase toNumber show phase outs validator s = (s', out)"
    and "currentWorkflow s = None \<or>
         (\<exists>w. currentWorkflow s = Some w \<and> currentPhase w \<noteq> Some phase)"
  shows "currentWorkflow s' = currentWorkflow s"
  using validatePhase_frame[OF assms(1)] assms(2) by auto

theorem other_phase_leaves_workflow_witness:
  "validatePhase no_toNumber show0 ''pseudocode'' all_outputs None sparc0 =
     (sparc0\<lparr> sparc_events := sparc_events sparc0 @ [PhaseCompleted ''pseudocode''] \<rparr>,
      Inr (Validated pseudocode_passed)) \<and>
   passed pseudocode_passed \<and>
   (currentWorkflow sparc0 = None \<or>
    (\<exists>w. currentWorkflow sparc0 = Some w \<and> currentPhase w \<noteq> Some ''pseudocode'')) \<and>
   currentWorkflow (sparc0\<lparr> sparc_events :=
       sparc_events sparc0 @ [PhaseCompleted ''pseudocode''] \<rparr>) = currentWorkflow sparc0"
proof -
  note h1 = validate_pseudocode_eval
  have h2: "currentWorkflow sparc0 = None \<or>
    (\<exists>w. currentWorkflow sparc0 = Some w \<and> currentPhase w \<noteq> Some ''pseudocode'')"
    by (simp add: sparc0_workflow workflow0_def)
  from other_phase_leaves_workflow[OF h1 h2] h1 h2 show ?thesis
    by (simp add: pseudocode_passed_def)
qed

text \<open>
  Claim C5, as the code has it. Registering a hook whose handler is not a function raises
  at once. \<open>validatePhase\<close> with a phase name that is no key of the phase table (and no
  member name of \<open>Object.prototype\<close>) does not raise: it returns the structured failure
  \<open>{valid: false, error: "Unknown phase: ..."}\<close> and leaves the state untouched.
\<close>

theorem configuration_errors:
  "registerPreToolUse i NotCallable options hs =
     (hs, Inl (Thrown (''PreToolUse hook '' @ [CHR 0x27] @ i @ [CHR 0x27] @
                       '' must be a function''))) \<and>
   registerPostToolUse i NotCallable options hs =
     (hs, Inl (Thrown (''PostToolUse hook '' @ [CHR 0x27] @ i @ [CHR 0x27] @
                       '' must be a function''))) \<and>
   (phase \<notin> fst ` set phases \<and> phase \<notin> set object_prototype_keys \<longrightarrow>
      validatePhase toNumber show phase outs validator s =
        (s, Inr (UnknownPhase (''Unknown phase: '' @ phase))))"
proof -
  have "phase \<notin> fst ` set phases \<Longrightarrow> map_of phases phase = None"
    by (simp add: map_of_eq_None_iff)
  then show ?thesis
    by (auto simp: registerPreToolUse_def registerPostToolUse_def validatePhase_def
          lookup_phase_def)
qed

theorem configuration_errors_witness:
  "''deployment'' \<notin> fst ` set phases \<and> ''deployment'' \<notin> set object_prototype_keys \<and>
   validatePhase no_toNumber show0 ''deployment'' full_spec_outputs None sparc0 =
     (sparc0, Inr (UnknownPhase ''Unknown phase: deployment'')) \<and>
   snd (registerPreToolUse ''audit'' NotCallable default_hook_options hooks0) =
     Inl (Thrown ''PreToolUse hook 'audit' must be a function'')"
proof -
  have h: "''deployment'' \<notin> fst ` set phases \<and> ''deployment'' \<notin> set object_prototype_keys"
    by (simp add: phases_def object_prototype_keys_def)
  from configuration_errors[of "''audit''" default_hook_options hooks0 "''deployment''"
      no_toNumber show0 full_spec_outputs None sparc0] h
  show ?thesis by simp
qed

text \<open>
  Claim C5 as stated fails for \<open>validatePhase\<close>: an unknown phase name yields a returned
  failure object, not a raised error.
\<close>

theorem unknown_phase_is_returned:
  "validatePhase no_toNumber show0 ''deployment'' full_spec_outputs None sparc0 =
     (sparc0, Inr (UnknownPhase ''Unknown phase: deployment''))"
  by (simp add: validatePhase_def lookup_phase_def phases_def object_prototype_keys_def)

section \<open>Properties of the hook pipeline\<close>

lemma pre_loop_strict: "pre_loop t p hs s r = (s', r', e) \<Longrightarrow> strictMode s' = strictMode s"
proof (induction hs arbitrary: s r)
  case Nil then show ?case by simp
next
  case (Cons h hs)
  then show ?case
    by (auto simp: Let_def split: if_splits sum.splits option.splits)
qed

lemma pre_loop_append:
  "pre_loop t p before s r = (s2, r2, None) \<Longrightarrow> strictMode s \<longrightarrow> res_allowed r2 \<Longrightarrow>
   pre_loop t p (before @ rest) s r = pre_loop t p rest s2 r2"
proof (induction before arbitrary: s r)
  case Nil then show ?case by simp
next
  case (Cons h hs)
  show ?case
  proof (cases "enabled h")
    case False
    with Cons show ?thesis by simp
  next
    case True
    let ?s1 = "s\<lparr> invoked := invoked s @ [hook_id h] \<rparr>"
    let ?s2 = "?s1\<lparr> preToolUse := count_execution (hook_id h) (preToolUse ?s1) \<rparr>"
    show ?thesis
    proof (cases "handler h t p")
      case (Inl e)
      with True Cons.prems show ?thesis by (simp add: Let_def)
    next
      case (Inr res)
      show ?thesis
      proof (cases "\<exists>x. res = Some x \<and> \<not> allowed x")
        case False
        with True Inr Cons.prems have "pre_loop t p hs ?s2 r = (s2, r2, None)"
          by (cases res) (auto simp: Let_def)
        from Cons.IH[OF this] Cons.prems(2) have "pre_loop t p (hs @ rest) ?s2 r = pre_loop t p rest s2 r2"
          by simp
        with True Inr False show ?thesis by (cases res) (auto simp: Let_def)
      next
        case veto: True
        then obtain x where x: "res = Some x" "\<not> allowed x" by blast
        let ?r' = "r\<lparr> res_allowed := False,
                                interventions := interventions r @
                                  [\<lparr> hookId = hook_id h, iv_reason = hr_reason x,
                                     iv_severity = (case hr_severity x of
                                          None \<Rightarrow> ''HIGH''
                                        | Some v \<Rightarrow> if v = [] then ''HIGH'' else v),
                                     iv_suggestion = hr_suggestion x \<rparr>] \<rparr>"
        let ?s3 = "?s2\<lparr> preToolUseBlocked := Suc (preToolUseBlocked ?s2) \<rparr>"
        show ?thesis
        proof (cases "strictMode s")
          case True
          with \<open>enabled h\<close> Inr x Cons.prems show ?thesis by (auto simp: Let_def)
        next
          case False
          with \<open>enabled h\<close> Inr x Cons.prems have "pre_loop t p hs ?s3 ?r' = (s2, r2, None)"
            by (simp add: Let_def)
          from Cons.IH[OF this] False have "pre_loop t p (hs @ rest) ?s3 ?r' = pre_loop t p rest s2 r2"
            by simp
          with \<open>enabled h\<close> Inr x False show ?thesis by (simp add: Let_def)
        qed
      qed
    qed
  qed
qed

lemma post_loop_append:
  "post_loop t p before s r = (s2, r2, None) \<Longrightarrow>
   post_loop t p (before @ rest) s r = post_loop t p rest s2 r2"
proof (induction before arbitrary: s r)
  case Nil then show ?case by simp
next
  case (Cons h hs)
  then show ?case
    by (auto simp: Let_def split: if_splits sum.splits option.splits prod.splits)
qed

lemma pre_loop_through:
  "pre_loop t p hs s r = (s', r', None) \<Longrightarrow> strictMode s \<longrightarrow> res_allowed r' \<Longrightarrow>
   invoked s' = invoked s @ map hook_id (filter enabled hs) \<and>
   hook_events s' = hook_events s \<and> preToolUseThreshold s' = preToolUseThreshold s \<and>
   performanceViolations s' = performanceViolations s"
proof (induction hs arbitrary: s r)
  case Nil then show ?case by simp
next
  case (Cons h hs)
  show ?case
  proof (cases "enabled h")
    case False
    with Cons show ?thesis by simp
  next
    case True
    let ?s1 = "s\<lparr> invoked := invoked s @ [hook_id h] \<rparr>"
    let ?s2 = "?s1\<lparr> preToolUse := count_execution (hook_id h) (preToolUse ?s1) \<rparr>"
    show ?thesis
    proof (cases "handler h t p")
      case (Inl e)
      with True Cons.prems show ?thesis by (simp add: Let_def)
    next
      case (Inr res)
      show ?thesis
      proof (cases "\<exists>x. res = Some x \<and> \<not> allowed x")
        case False
        with True Inr Cons.prems have "pre_loop t p hs ?s2 r = (s', r', None)"
          by (cases res) (auto simp: Let_def)
        from Cons.IH[OF this] Cons.prems(2) True show ?thesis by simp
      next
        case veto: True
        then obtain x where x: "res = Some x" "\<not> allowed x" by blast
        let ?r' = "r\<lparr> res_allowed := False,
                                interventions := interventions r @
                                  [\<lparr> hookId = hook_id h, iv_reason = hr_reason x,
                                     iv_severity = (case hr_severity x of
                                          None \<Rightarrow> ''HIGH''
                                        | Some v \<Rightarrow> if v = [] then ''HIGH'' else v),
                                     iv_suggestion = hr_suggestion x \<rparr>] \<rparr>"
        let ?s3 = "?s2\<lparr> preToolUseBlocked := Suc (preToolUseBlocked ?s2) \<rparr>"
        show ?thesis
        proof (cases "strictMode s")
          case True
          with \<open>enabled h\<close> Inr x Cons.prems show ?thesis by (auto simp: Let_def)
        next
          case False
          with \<open>enabled h\<close> Inr x Cons.prems have "pre_loop t p hs ?s3 ?r' = (s', r', None)"
            by (simp add: Let_def)
          from Cons.IH[OF this] False \<open>enabled h\<close> show ?thesis by simp
        qed
      qed
    qed
  qed
qed

lemma post_loop_through:
  "post_loop t p hs s r = (s', r', None) \<Longrightarrow>
   invoked s' = invoked s @ map hook_id (filter enabled hs) \<and>
   hook_events s' = hook_events s \<and> postToolUseThreshold s' = postToolUseThreshold s \<and>
   performanceViolations s' = performanceViolations s"
proof (induction hs arbitrary: s r)
  case Nil then show ?case by simp
next
  case (Cons h hs)
  show ?case
  proof (cases "enabled h")
    case False
    with Cons show ?thesis by simp
  next
    case True
    let ?s1 = "s\<lparr> invoked := invoked s @ [hook_id h] \<rparr>"
    let ?s2 = "?s1\<lparr> postToolUse := count_execution (hook_id h) (postToolUse ?s1) \<rparr>"
    show ?thesis
    proof (cases "handler h t p")
      case (Inl e)
      with True Cons.prems show ?thesis by (simp add: Let_def)
    next
      case (Inr res)
      show ?thesis
      proof (cases res)
        case None
        with True Inr Cons.prems have "post_loop t p hs ?s2 r = (s', r', None)"
          by (simp add: Let_def)
        from Cons.IH[OF this] True show ?thesis by simp
      next
        case (Some x)
        with True Inr Cons.prems obtain s3 v2 where
          l: "post_loop t p hs s3 v2 = (s', r', None)"
          and s3: "invoked s3 = invoked ?s2" "hook_events s3 = hook_events s"
            "postToolUseThreshold s3 = postToolUseThreshold s"
            "performanceViolations s3 = performanceViolations s"
          by (auto simp: Let_def split: if_splits prod.splits)
        from Cons.IH[OF l] s3 True show ?thesis by simp
      qed
    qed
  qed
qed

lemma pre_raise:
  assumes sorted: "getSortedHooks (preToolUse s) = before @ hook # after"
    and through: "pre_loop toolName params before
           (s\<lparr> preToolUseExecutions := Suc (preToolUseExecutions s) \<rparr>)
           \<lparr> res_allowed = True, interventions = [] \<rparr> = (s1, r1, None)"
    and nobreak: "strictMode s \<longrightarrow> res_allowed r1"
    and en: "enabled hook" and raise: "handler hook toolName params = Inl e"
  shows "snd (executePreToolUse elapsed toolName params s) = r1 \<and>
         invoked (fst (executePreToolUse elapsed toolName params s)) =
           invoked s @ map hook_id (filter enabled before) @ [hook_id hook] \<and>
         hook_events (fst (executePreToolUse elapsed toolName params s)) =
           hook_events s @ [HookError ''preToolUse'' e] @
           (if elapsed > preToolUseThreshold s then [PerformanceViolation ''preToolUse''] else []) @
           [PreToolUseComplete]"
proof -
  let ?s = "s\<lparr> preToolUseExecutions := Suc (preToolUseExecutions s) \<rparr>"
  let ?r0 = "\<lparr> res_allowed = True, interventions = [] \<rparr>"
  have nb: "strictMode ?s \<longrightarrow> res_allowed r1" using nobreak by simp
  from pre_loop_through[OF through nb]
  have th: "invoked s1 = invoked s @ map hook_id (filter enabled before)"
    "hook_events s1 = hook_events s" "preToolUseThreshold s1 = preToolUseThreshold s"
    by simp_all
  have "pre_loop toolName params (getSortedHooks (preToolUse ?s)) ?s ?r0 =
        pre_loop toolName params (hook # after) s1 r1"
    using pre_loop_append[OF through nb, of "hook # after"] sorted by simp
  also have "\<dots> = (s1\<lparr> invoked := invoked s1 @ [hook_id hook] \<rparr>, r1, Some e)"
    using en raise by (simp add: Let_def)
  finally have "pre_loop toolName params (getSortedHooks (preToolUse ?s)) ?s ?r0 =
      (s1\<lparr> invoked := invoked s1 @ [hook_id hook] \<rparr>, r1, Some e)" .
  then show ?thesis using th
    by (simp add: executePreToolUse_def Let_def)
qed

lemma post_raise:
  assumes sorted: "getSortedHooks (postToolUse s) = before @ hook # after"
    and through: "post_loop toolName params before
           (s\<lparr> postToolUseExecutions := Suc (postToolUseExecutions s) \<rparr>)
           \<lparr> res_valid = True, res_issues = [] \<rparr> = (s1, r1, None)"
    and en: "enabled hook" and raise: "handler hook toolName params = Inl e"
  shows "snd (executePostToolUse elapsed toolName params s) = r1 \<and>
         invoked (fst (executePostToolUse elapsed toolName params s)) =
           invoked s @ map hook_id (filter enabled before) @ [hook_id hook] \<and>
         hook_events (fst (executePostToolUse elapsed toolName params s)) =
           hook_events s @ [HookError ''postToolUse'' e] @
           (if elapsed > postToolUseThreshold s then [PerformanceViolation ''postToolUse''] else []) @
           [PostToolUseComplete]"
proof -
  let ?s = "s\<lparr> postToolUseExecutions := Suc (postToolUseExecutions s) \<rparr>"
  let ?r0 = "\<lparr> res_valid = True, res_issues = [] \<rparr>"
  from post_loop_through[OF through]
  have th: "invoked s1 = invoked s @ map hook_id (filter enabled before)"
    "hook_events s1 = hook_events s" "postToolUseThreshold s1 = postToolUseThreshold s"
    by simp_all
  have "post_loop toolName params (getSortedHooks (postToolUse ?s)) ?s ?r0 =
        post_loop toolName params (hook # after) s1 r1"
    using post_loop_append[OF through, of "hook # after"] sorted by simp
  also have "\<dots> = (s1\<lparr> invoked := invoked s1 @ [hook_id hook] \<rparr>, r1, Some e)"
    using en raise by (simp add: Let_def)
  finally have "post_loop toolName params (getSortedHooks (postToolUse ?s)) ?s ?r0 =
      (s1\<lparr> invoked := invoked s1 @ [hook_id hook] \<rparr>, r1, Some e)" .
  then show ?thesis using th
    by (simp add: executePostToolUse_def Let_def)
qed

lemma hooks_two_sorted:
  "getSortedHooks (preToolUse hooks_two) = [] @ first_pre_hook # [second_pre_hook]"
  "getSortedHooks (postToolUse hooks_two) = [] @ first_post_hook # [second_post_hook]"
  by (simp_all add: hooks_two_def registerPreToolUse_def registerPostToolUse_def hooks0_def
        default_hook_options_def getSortedHooks_def first_pre_hook_def second_pre_hook_def
        first_post_hook_def second_post_hook_def)

text \<open>
  Claim C2, as the code has it. The \<open>try\<close> encloses the whole loop over the sorted hooks.
  When the loop has run through the hooks \<open>before\<close> without leaving (no error, and in
  strict mode no veto) and the next enabled hook raises, the error is caught and reported
  as one \<open>hookError\<close> event, the raising hook adds no veto (the results are those gathered
  from \<open>before\<close>), the call returns normally, and the raising hook is the last handler
  invoked: the hooks \<open>after\<close> it are skipped in this run. The same holds for
  \<open>executePostToolUse\<close>.
\<close>

theorem raising_hook_ends_the_run:
  "(getSortedHooks (preToolUse s) = before @ hook # after \<and>
    pre_loop toolName params before
       (s\<lparr> preToolUseExecutions := Suc (preToolUseExecutions s) \<rparr>)
       \<lparr> res_allowed = True, interventions = [] \<rparr> = (s1, r1, None) \<and>
    (strictMode s \<longrightarrow> res_allowed r1) \<and>
    enabled hook \<and> handler hook toolName params = Inl e \<longrightarrow>
      snd (executePreToolUse elapsed toolName params s) = r1 \<and>
      invoked (fst (executePreToolUse elapsed toolName params s)) =
        invoked s @ map hook_id (filter enabled before) @ [hook_id hook] \<and>
      hook_events (fst (executePreToolUse elapsed toolName params s)) =
        hook_events s @ [HookError ''preToolUse'' e] @
        (if elapsed > preToolUseThreshold s then [PerformanceViolation ''preToolUse'']
         else []) @ [PreToolUseComplete]) \<and>
   (getSortedHooks (postToolUse s) = before' @ hook' # after' \<and>
    post_loop toolName params' before'
       (s\<lparr> postToolUseExecutions := Suc (postToolUseExecutions s) \<rparr>)
       \<lparr> res_valid = True, res_issues = [] \<rparr> = (s1', r1', None) \<and>
    enabled hook' \<and> handler hook' toolName params' = Inl e' \<longrightarrow>
      snd (executePostToolUse elapsed toolName params' s) = r1' \<and>
      invoked (fst (executePostToolUse elapsed toolName params' s)) =
        invoked s @ map hook_id (filter enabled before') @ [hook_id hook'] \<and>
      hook_events (fst (executePostToolUse elapsed toolName params' s)) =
        hook_events s @ [HookError ''postToolUse'' e'] @
        (if elapsed > postToolUseThreshold s then [PerformanceViolation ''postToolUse'']
         else []) @ [PostToolUseComplete])"
  using pre_raise[of s before hook after toolName params s1 r1 e elapsed]
        post_raise[of s before' hook' after' toolName params' s1' r1' e' elapsed]
  by blast

theorem raising_hook_ends_the_run_witness:
  "getSortedHooks (preToolUse hooks_two) = [] @ first_pre_hook # [second_pre_hook] \<and>
   enabled first_pre_hook \<and> handler first_pre_hook ''Write'' () = Inl (Thrown ''boom'') \<and>
   getSortedHooks (postToolUse hooks_two) = [] @ first_post_hook # [second_post_hook] \<and>
   enabled first_post_hook \<and> handler first_post_hook ''Write'' () = Inl (Thrown ''boom'') \<and>
   snd (executePreToolUse (1 / 2) ''Write'' () hooks_two) =
      \<lparr> res_allowed = True, interventions = [] \<rparr> \<and>
   invoked (fst (executePreToolUse (1 / 2) ''Write'' () hooks_two)) = [''first''] \<and>
   snd (executePostToolUse (1 / 2) ''Write'' () hooks_two) =
      \<lparr> res_valid = True, res_issues = [] \<rparr> \<and>
   invoked (fst (executePostToolUse (1 / 2) ''Write'' () hooks_two)) = [''first'']"
proof -
  have i: "invoked hooks_two = []" "strictMode hooks_two = False"
    by (simp_all add: hooks_two_def registerPreToolUse_def registerPostToolUse_def hooks0_def)
  have pre: "enabled first_pre_hook" "handler first_pre_hook ''Write'' () = Inl (Thrown ''boom'')"
    by (simp_all add: first_pre_hook_def raising_handler_def)
  have id: "hook_id first_pre_hook = ''first''" "hook_id first_post_hook = ''first''"
    by (simp_all add: first_pre_hook_def first_post_hook_def)
  have post: "enabled first_post_hook"
    "handler first_post_hook ''Write'' () = Inl (Thrown ''boom'')"
    by (simp_all add: first_post_hook_def raising_handler_def)
  from raising_hook_ends_the_run[of hooks_two "[]" first_pre_hook "[second_pre_hook]"
      "''Write''" "()"
      "hooks_two\<lparr> preToolUseExecutions := Suc (preToolUseExecutions hooks_two) \<rparr>"
      "\<lparr> res_allowed = True, interventions = [] \<rparr>" "Thrown ''boom''" "1 / 2"
      "[]" first_post_hook "[second_post_hook]" "()"
      "hooks_two\<lparr> postToolUseExecutions := Suc (postToolUseExecutions hooks_two) \<rparr>"
      "\<lparr> res_valid = True, res_issues = [] \<rparr>" "Thrown ''boom''"]
    hooks_two_sorted pre post i id
  show ?thesis by simp
qed

text \<open>
  Claim C2 as stated fails: with two enabled hooks of which the first raises, the second
  one is not executed, in \<open>executePreToolUse\<close> as in \<open>executePostToolUse\<close>.
\<close>

theorem remaining_hooks_are_skipped:
  "map hook_id (filter enabled (getSortedHooks (preToolUse hooks_two))) =
     [''first'', ''second''] \<and>
   invoked (fst (executePreToolUse (1 / 2) ''Write'' () hooks_two)) = [''first''] \<and>
   map hook_id (filter enabled (getSortedHooks (postToolUse hooks_two))) =
     [''first'', ''second''] \<and>
   invoked (fst (executePostToolUse (1 / 2) ''Write'' () hooks_two)) = [''first'']"
  by (simp add: hooks_two_def registerPreToolUse_def registerPostToolUse_def hooks0_def
        default_hook_options_def getSortedHooks_def executePreToolUse_def
        executePostToolUse_def raising_handler_def Let_def)


section \<open>Properties of the matcher\<close>

lemma rx_run_consumes:
  "rx_only P r \<Longrightarrow> st' \<in> set (rx_run r st) \<Longrightarrow>
   \<exists>w. snd st = w @ snd st' \<and> list_all P w"
proof (induction r st arbitrary: st' rule: rx_run.induct)
  case (1 Q st)
  then show ?case by (cases "snd st") (auto split: if_splits)
next
  case (2 st)
  then show ?case by simp
next
  case (3 a b st)
  from "3.prems" obtain st1 where s1: "st1 \<in> set (rx_run a st)" and s2: "st' \<in> set (rx_run b st1)"
    by auto
  from "3.IH"(1)[OF _ s1] "3.prems"(1) obtain w1 where w1: "snd st = w1 @ snd st1" "list_all P w1"
    by auto
  from "3.IH"(2)[OF s1 _ s2] "3.prems"(1) obtain w2 where w2: "snd st1 = w2 @ snd st'" "list_all P w2"
    by auto
  from w1 w2 show ?case by (intro exI[of _ "w1 @ w2"]) simp
next
  case (4 a b st)
  from "4.prems" have ra: "rx_only P a" and rb: "rx_only P b"
    and "st' \<in> set (rx_run a st) \<or> st' \<in> set (rx_run b st)" by simp_all
  then show ?case
  proof (elim disjE)
    assume "st' \<in> set (rx_run a st)"
    from "4.IH"(1)[OF ra this] show ?thesis .
  next
    assume "st' \<in> set (rx_run b st)"
    from "4.IH"(2)[OF rb this] show ?thesis .
  qed
next
  case (5 a st)
  from "5.prems"(2) consider "st' = st"
    | st1 where "st1 \<in> set (rx_run a st)" "length (snd st1) < length (snd st)"
        "st' \<in> set (rx_run (Star a) st1)"
    by (subst (asm) rx_run.simps) (auto split: if_splits)
  then show ?case
  proof cases
    case 1 then show ?thesis by simp
  next
    case 2
    from "5.IH"(1)[OF _ 2(1)] "5.prems"(1) obtain w1 where
      w1: "snd st = w1 @ snd st1" "list_all P w1" by auto
    from "5.IH"(2)[OF 2(1) 2(2) _ 2(3)] "5.prems"(1) obtain w2 where
      w2: "snd st1 = w2 @ snd st'" "list_all P w2" by auto
    from w1 w2 show ?thesis by (intro exI[of _ "w1 @ w2"]) simp
  qed
next
  case (6 a st)
  from "6.prems"(2) consider "st' = st"
    | st1 where "st1 \<in> set (rx_run a st)" "length (snd st1) < length (snd st)"
        "st' \<in> set (rx_run (Lazy a) st1)"
    by (subst (asm) rx_run.simps) (auto split: if_splits)
  then show ?case
  proof cases
    case 1 then show ?thesis by simp
  next
    case 2
    from "6.IH"(1)[OF _ 2(1)] "6.prems"(1) obtain w1 where
      w1: "snd st = w1 @ snd st1" "list_all P w1" by auto
    from "6.IH"(2)[OF 2(1) 2(2) _ 2(3)] "6.prems"(1) obtain w2 where
      w2: "snd st1 = w2 @ snd st'" "list_all P w2" by auto
    from w1 w2 show ?thesis by (intro exI[of _ "w1 @ w2"]) simp
  qed
next
  case (7 a st)
  then show ?case by (auto split: if_splits)
next
  case (8 st)
  then show ?case by (auto split: if_splits)
qed

lemma rx_only_True: "rx_only (\<lambda>c. True) r"
  by (induction r) auto

lemma rx_run_suffix: "st' \<in> set (rx_run r st) \<Longrightarrow> \<exists>w. snd st = w @ snd st'"
  using rx_run_consumes[OF rx_only_True] by blast

lemma rx_run_Seq_iff:
  "st' \<in> set (rx_run (Seq a b) st) \<longleftrightarrow> (\<exists>st1 \<in> set (rx_run a st). st' \<in> set (rx_run b st1))"
  by auto

lemma rx_run_rep_Cls:
  "st' \<in> set (rx_run (rep n (Cls P)) st) \<Longrightarrow>
   \<exists>w. snd st = w @ snd st' \<and> length w = n \<and> list_all P w"
proof (induction n arbitrary: st)
  case 0
  then show ?case by simp
next
  case (Suc n)
  from Suc.prems obtain st1 where s1: "st1 \<in> set (rx_run (Cls P) st)"
    and s2: "st' \<in> set (rx_run (rep n (Cls P)) st1)" by auto
  from s1 obtain c where c: "snd st = c # snd st1" "P c"
    by (cases "snd st") (auto split: if_splits)
  from Suc.IH[OF s2] obtain w where w: "snd st1 = w @ snd st'" "length w = n" "list_all P w"
    by blast
  from c w show ?case by (intro exI[of _ "c # w"]) simp
qed

lemma rx_run_at_least_Cls:
  assumes "st' \<in> set (rx_run (at_least n (Cls P)) st)"
  shows "\<exists>w. snd st = w @ snd st' \<and> n \<le> length w \<and> list_all P w"
proof -
  from assms obtain st1 where s1: "st1 \<in> set (rx_run (rep n (Cls P)) st)"
    and s2: "st' \<in> set (rx_run (Star (Cls P)) st1)" by (auto simp: at_least_def)
  from rx_run_rep_Cls[OF s1] obtain w1 where
    w1: "snd st = w1 @ snd st1" "length w1 = n" "list_all P w1" by blast
  have "rx_only P (Star (Cls P))" by simp
  from rx_run_consumes[OF this s2] obtain w2 where
    w2: "snd st1 = w2 @ snd st'" "list_all P w2" by blast
  from w1 w2 show ?thesis by (intro exI[of _ "w1 @ w2"]) simp
qed

text \<open>A greedy run of a class, followed by one code unit of a disjoint class.\<close>

lemma star_then_other:
  assumes "list_all P w" and "Q q" and "\<And>c. P c \<Longrightarrow> \<not> Q c"
  shows "rx_run (Seq (Star (Cls P)) (Seq (Cls Q) Eps)) (p, w @ q # rest) = [(Some q, rest)]"
  using assms(1)
proof (induction w arbitrary: p)
  case Nil
  from assms(2,3) have "\<not> P q" by blast
  then show ?case using assms(2) by (simp add: rx_run.simps(5))
next
  case (Cons c w)
  then have c: "P c" and w: "list_all P w" by simp_all
  from c assms(3) have nq: "\<not> Q c" by blast
  have "rx_run (Star (Cls P)) (p, (c # w) @ q # rest) =
        rx_run (Star (Cls P)) (Some c, w @ q # rest) @ [(p, (c # w) @ q # rest)]"
    using c by (subst rx_run.simps(5)) simp
  then show ?case using Cons.IH[OF w, of "Some c"] nq by simp
qed

lemma rx_run_rep4:
  assumes "P a" "P b" "P c" "P d"
  shows "rx_run (rep 4 (Cls P)) (p, a # b # c # d # s) = [(Some d, s)]"
  using assms by (simp add: eval_nat_numeral)

lemma match_here_Some:
  assumes "match_here r p s = Some n"
  shows "\<exists>st. st \<in> set (rx_run r (p, s)) \<and> s = take n s @ snd st \<and> n \<le> length s"
proof -
  from assms obtain st sts where r: "rx_run r (p, s) = st # sts"
    and n: "n = length s - length (snd st)"
    by (auto simp: match_here_def split: list.splits)
  then have "st \<in> set (rx_run r (p, s))" by simp
  from rx_run_suffix[OF this] obtain w where w: "s = w @ snd st" by auto
  then have "length s - length (snd st) = length w" by (metis add_diff_cancel_right' length_append)
  with w n have "take n s = w" by (metis append_eq_conv_conj)
  with w n r show ?thesis by (intro exI[of _ st]) auto
qed

lemma match_all_sound:
  "m \<in> set (match_all r p s) \<Longrightarrow>
   \<exists>p' s' st. st \<in> set (rx_run r (p', s')) \<and> s' = m @ snd st \<and> suffix s' s"
proof (induction r p s rule: match_all.induct)
  case (1 r p)
  then obtain n where n: "match_here r p [] = Some n" and m: "m = []"
    by (cases "match_here r p []") auto
  from match_here_Some[OF n] obtain st where "st \<in> set (rx_run r (p, []))" "snd st = []"
    by auto
  with m show ?case by (intro exI[of _ p] exI[of _ "[]"] exI[of _ st]) simp
next
  case (2 r p c cs)
  show ?case
  proof (cases "match_here r p (c # cs)")
    case None
    with "2.prems" have "m \<in> set (match_all r (Some c) cs)" by simp
    from "2.IH"(1)[OF None this] obtain p' s' st where
      r: "st \<in> set (rx_run r (p', s'))" "s' = m @ snd st" and "suffix s' cs" by blast
    then have "suffix s' (c # cs)" by (simp add: suffix_Cons)
    with r show ?thesis by (intro exI[of _ p'] exI[of _ s'] exI[of _ st]) simp
  next
    case (Some k)
    from match_here_Some[OF Some] obtain st where st: "st \<in> set (rx_run r (p, c # cs))"
      and split: "c # cs = take k (c # cs) @ snd st" by blast
    show ?thesis
    proof (cases k)
      case 0
      with Some "2.prems" have "m = [] \<or> m \<in> set (match_all r (Some c) cs)" by simp
      then show ?thesis
      proof
        assume "m = []"
        with st split 0 show ?thesis
          by (intro exI[of _ p] exI[of _ "c # cs"] exI[of _ st]) simp
      next
        assume "m \<in> set (match_all r (Some c) cs)"
        from "2.IH"(2)[OF Some 0 this] obtain p' s' st' where
          r: "st' \<in> set (rx_run r (p', s'))" "s' = m @ snd st'" and "suffix s' cs" by blast
        then have "suffix s' (c # cs)" by (simp add: suffix_Cons)
        with r show ?thesis by (intro exI[of _ p'] exI[of _ s'] exI[of _ st']) simp
      qed
    next
      case (Suc n)
      with Some "2.prems" have "m = c # take n cs \<or>
          m \<in> set (match_all r (Some (last (c # take n cs))) (drop n cs))" by simp
      then show ?thesis
      proof
        assume "m = c # take n cs"
        with st split Suc show ?thesis
          by (intro exI[of _ p] exI[of _ "c # cs"] exI[of _ st]) simp
      next
        assume "m \<in> set (match_all r (Some (last (c # take n cs))) (drop n cs))"
        from "2.IH"(3)[OF Some Suc this] obtain p' s' st' where
          r: "st' \<in> set (rx_run r (p', s'))" "s' = m @ snd st'" and "suffix s' (drop n cs)" by blast
        then have "suffix s' cs" using suffix_drop suffix_order.trans by blast
        then have "suffix s' (c # cs)" by (simp add: suffix_Cons)
        with r show ?thesis by (intro exI[of _ p'] exI[of _ s'] exI[of _ st']) simp
      qed
    qed
  qed
qed

section \<open>Properties of the pattern validator\<close>

lemma quote_Cls: "quote = Cls is_quote"
  by (auto simp: quote_def any_of_def is_quote_def)

lemma not_quote_Cls: "not_quote = Cls (\<lambda>c. \<not> is_quote c)"
  by (auto simp: not_quote_def none_of_def is_quote_def)

lemma mask_rx_no_quote:
  "\<not> is_quote c \<Longrightarrow> rx_run mask_rx (p, c # s) = []"
  by (simp add: mask_rx_def quote_Cls)

lemma mask_rx_at_quote:
  assumes q1: "is_quote q1" and q2: "is_quote q2"
    and v: "list_all (\<lambda>c. \<not> is_quote c) v" and len: "4 \<le> length v"
  shows "rx_run mask_rx (p, q1 # v @ q2 # rest) = [(Some q2, rest)]"
proof -
  from len obtain a b c d v' where v': "v = a # b # c # d # v'"
    by (cases v; cases "tl v"; cases "tl (tl v)"; cases "tl (tl (tl v))") auto
  with v have abcd: "\<not> is_quote a" "\<not> is_quote b" "\<not> is_quote c" "\<not> is_quote d"
    and rest: "list_all (\<lambda>c. \<not> is_quote c) v'" by simp_all
  have four: "rx_run (rep 4 (Cls (\<lambda>c. \<not> is_quote c))) (Some q1, a # b # c # d # v' @ q2 # rest) =
      [(Some d, v' @ q2 # rest)]"
    using rx_run_rep4[of "\<lambda>c. \<not> is_quote c" a b c d "Some q1" "v' @ q2 # rest"] abcd by simp
  have tail: "rx_run (Seq (Star (Cls (\<lambda>c. \<not> is_quote c))) (Seq (Cls is_quote) Eps))
      (Some d, v' @ q2 # rest) = [(Some q2, rest)]"
    using star_then_other[OF rest, of is_quote q2 "Some d" rest] q2 by simp
  have "rx_run mask_rx (p, q1 # v @ q2 # rest) =
        concat (map (rx_run (Seq (Cls is_quote) Eps))
          (concat (map (rx_run (Star (Cls (\<lambda>c. \<not> is_quote c))))
             (rx_run (rep 4 (Cls (\<lambda>c. \<not> is_quote c)))
                (Some q1, a # b # c # d # v' @ q2 # rest)))))"
    using q1 v' by (simp add: mask_rx_def quote_Cls not_quote_Cls at_least_def del: rep.simps)
  also have "\<dots> = rx_run (Seq (Star (Cls (\<lambda>c. \<not> is_quote c))) (Seq (Cls is_quote) Eps))
      (Some d, v' @ q2 # rest)"
    by (simp only: four) simp
  finally show ?thesis using tail by simp
qed

lemma search_mask_skip:
  "list_all (\<lambda>c. \<not> is_quote c) h \<Longrightarrow> is_quote q \<Longrightarrow>
   search mask_rx p (h @ q # s) =
     map_option (\<lambda>(pre, m, post). (h @ pre, m, post))
       (search mask_rx (if h = [] then p else Some (last h)) (q # s))"
proof (induction h arbitrary: p)
  case Nil
  show ?case by (cases "search mask_rx p (q # s)") auto
next
  case (Cons c h)
  then have c: "\<not> is_quote c" and h: "list_all (\<lambda>c. \<not> is_quote c) h" by simp_all
  have none: "match_here mask_rx p (c # h @ q # s) = None"
    using mask_rx_no_quote[OF c] by (simp add: match_here_def)
  have "search mask_rx p ((c # h) @ q # s) =
        map_option (\<lambda>(pre, m, post). (c # pre, m, post)) (search mask_rx (Some c) (h @ q # s))"
    using none by simp
  also have "\<dots> = map_option (\<lambda>(pre, m, post). (c # pre, m, post))
      (map_option (\<lambda>(pre, m, post). (h @ pre, m, post))
         (search mask_rx (if h = [] then Some c else Some (last h)) (q # s)))"
    using Cons.IH[OF h Cons.prems(2), of "Some c"] by simp
  also have "\<dots> = map_option (\<lambda>(pre, m, post). ((c # h) @ pre, m, post))
      (search mask_rx (if c # h = [] then p else Some (last (c # h))) (q # s))"
    by (cases "search mask_rx (if h = [] then Some c else Some (last h)) (q # s)") auto
  finally show ?case .
qed

lemma maskSecret_shape:
  assumes h: "list_all (\<lambda>c. \<not> is_quote c) h" and q1: "is_quote q1" and q2: "is_quote q2"
    and v: "list_all (\<lambda>c. \<not> is_quote c) v" and len: "4 \<le> length v"
  shows "maskSecret (h @ q1 # v @ [q2]) =
     (if length v = 4 then h @ q1 # v @ [q2]
      else h @ [CHR 0x22] @ take 2 v @ replicate (min (length v - 4) 20) CHR ''*'' @
           drop (length v - 2) v @ [CHR 0x22])"
proof -
  let ?p = "if h = [] then None else Some (last h)"
  have "match_here mask_rx ?p (q1 # v @ [q2]) = Some (length (q1 # v @ [q2]))"
    using mask_rx_at_quote[OF q1 q2 v len, of ?p "[]"] by (simp add: match_here_def)
  then have "search mask_rx ?p (q1 # v @ [q2]) = Some ([], q1 # v @ [q2], [])"
    by simp
  then have "search mask_rx None (h @ q1 # v @ [q2]) = Some (h, q1 # v @ [q2], [])"
    using search_mask_skip[OF h q1, of None "v @ [q2]"] by simp
  then have "maskSecret (h @ q1 # v @ [q2]) = h @ mask_replacer (q1 # v @ [q2])"
    by (simp add: maskSecret_def)
  moreover have "butlast (tl (q1 # v @ [q2])) = v" by simp
  ultimately show ?thesis using len
    by (auto simp: mask_replacer_def Let_def)
qed

lemma rx_run_Cls_elim:
  assumes "st' \<in> set (rx_run (Cls Q) st)"
  obtains c where "snd st = c # snd st'" "Q c"
  using assms by (cases "snd st") (auto split: if_splits)

lemma rx_only_lit_i:
  "(\<And>c x. c \<in> set s \<Longrightarrow> same_letter c x \<Longrightarrow> P x) \<Longrightarrow> rx_only P (lit_i s)"
  by (induction s) auto

lemma same_letter_not_quote:
  "c \<in> set ''abcdefghijklmnopqrstuvwxyz'' \<Longrightarrow> same_letter c x \<Longrightarrow> \<not> is_quote x"
  by (auto simp: same_letter_def is_quote_def)

lemma keyword_no_quote:
  "set s \<subseteq> set ''abcdefghijklmnopqrstuvwxyz'' \<Longrightarrow> rx_only (\<lambda>c. \<not> is_quote c) (lit_i s)"
  by (rule rx_only_lit_i) (use same_letter_not_quote in blast)

lemma separator_no_quote: "rx_only (\<lambda>c. \<not> is_quote c) (opt (any_of ''_-''))"
  by (auto simp: opt_def any_of_def is_quote_def)

lemma secrets_keywords:
  assumes "p \<in> set patterns_secrets"
  shows "\<exists>kw n. regex p = secret_rx kw n \<and> rx_only (\<lambda>c. \<not> is_quote c) kw \<and> 4 \<le> n"
proof -
  have k: "\<And>s. set s \<subseteq> set ''abcdefghijklmnopqrstuvwxyz'' \<Longrightarrow>
      rx_only (\<lambda>c. \<not> is_quote c) (lit_i s)" by (rule keyword_no_quote)
  have kws: "rx_only (\<lambda>c. \<not> is_quote c) (lit_i ''password'')"
    "rx_only (\<lambda>c. \<not> is_quote c) (lit_i ''pwd'')"
    "rx_only (\<lambda>c. \<not> is_quote c) (lit_i ''api'')"
    "rx_only (\<lambda>c. \<not> is_quote c) (lit_i ''key'')"
    "rx_only (\<lambda>c. \<not> is_quote c) (lit_i ''apikey'')"
    "rx_only (\<lambda>c. \<not> is_quote c) (lit_i ''secret'')"
    "rx_only (\<lambda>c. \<not> is_quote c) (lit_i ''token'')"
    "rx_only (\<lambda>c. \<not> is_quote c) (lit_i ''auth'')"
    "rx_only (\<lambda>c. \<not> is_quote c) (lit_i ''private'')"
    "rx_only (\<lambda>c. \<not> is_quote c) (lit_i ''connection'')"
    "rx_only (\<lambda>c. \<not> is_quote c) (lit_i ''string'')"
    "rx_only (\<lambda>c. \<not> is_quote c) (lit_i ''database'')"
    "rx_only (\<lambda>c. \<not> is_quote c) (lit_i ''url'')"
    by (rule k, simp)+
  note sep = separator_no_quote
  have helper: "\<And>kw n. regex p = secret_rx kw n \<Longrightarrow> rx_only (\<lambda>c. \<not> is_quote c) kw \<Longrightarrow>
      4 \<le> n \<Longrightarrow> \<exists>kw n. regex p = secret_rx kw n \<and> rx_only (\<lambda>c. \<not> is_quote c) kw \<and> 4 \<le> n"
    by blast
  from assms consider
      "regex p = secret_rx (Alt (lit_i ''password'') (lit_i ''pwd'')) 4"
    | "regex p = secret_rx (Alt (seqs [lit_i ''api'', opt (any_of ''_-''), lit_i ''key''])
                               (lit_i ''apikey'')) 10"
    | "regex p = secret_rx (Alt (lit_i ''secret'') (lit_i ''token'')) 8"
    | "regex p = secret_rx (seqs [lit_i ''auth'', opt (any_of ''_-''), lit_i ''token'']) 10"
    | "regex p = secret_rx (seqs [lit_i ''private'', opt (any_of ''_-''), lit_i ''key'']) 20"
    | "regex p = secret_rx
          (Alt (seqs [lit_i ''connection'', opt (any_of ''_-''), lit_i ''string''])
               (seqs [lit_i ''database'', opt (any_of ''_-''), lit_i ''url''])) 15"
    unfolding patterns_secrets_def by auto
  then show ?thesis
  proof cases
    case 1 from helper[OF 1] kws sep show ?thesis by simp
  next
    case 2 from helper[OF 2] kws sep show ?thesis by simp
  next
    case 3 from helper[OF 3] kws sep show ?thesis by simp
  next
    case 4 from helper[OF 4] kws sep show ?thesis by simp
  next
    case 5 from helper[OF 5] kws sep show ?thesis by simp
  next
    case 6 from helper[OF 6] kws sep show ?thesis by simp
  qed
qed

lemma secret_rx_shape:
  assumes kw: "rx_only (\<lambda>c. \<not> is_quote c) kw"
    and run: "st' \<in> set (rx_run (secret_rx kw n) st)"
  shows "\<exists>h q1 v q2. snd st = h @ q1 # v @ q2 # snd st' \<and>
           list_all (\<lambda>c. \<not> is_quote c) h \<and> is_quote q1 \<and> is_quote q2 \<and>
           list_all (\<lambda>c. \<not> is_quote c) v \<and> n \<le> length v"
proof -
  let ?nq = "\<lambda>c. \<not> is_quote c"
  from run obtain st1 st2 st3 st4 st5 st6 where
    s1: "st1 \<in> set (rx_run kw st)" and
    s2: "st2 \<in> set (rx_run (Star ws) st1)" and
    s3: "st3 \<in> set (rx_run (any_of ''=:'') st2)" and
    s4: "st4 \<in> set (rx_run (Star ws) st3)" and
    s5: "st5 \<in> set (rx_run (Cls is_quote) st4)" and
    s6: "st6 \<in> set (rx_run (at_least n (Cls ?nq)) st5)" and
    s7: "st' \<in> set (rx_run (Cls is_quote) st6)"
    unfolding secret_rx_def seqs.simps rx_run_Seq_iff quote_Cls not_quote_Cls
    by auto
  have sp: "rx_only ?nq (Star ws)" by (auto simp: ws_def is_space_def is_quote_def)
  have eq: "rx_only ?nq (any_of ''=:'')" by (auto simp: any_of_def is_quote_def)
  from rx_run_consumes[OF kw s1] obtain w1 where w1: "snd st = w1 @ snd st1" "list_all ?nq w1"
    by blast
  from rx_run_consumes[OF sp s2] obtain w2 where w2: "snd st1 = w2 @ snd st2" "list_all ?nq w2"
    by blast
  from rx_run_consumes[OF eq s3] obtain w3 where w3: "snd st2 = w3 @ snd st3" "list_all ?nq w3"
    by blast
  from rx_run_consumes[OF sp s4] obtain w4 where w4: "snd st3 = w4 @ snd st4" "list_all ?nq w4"
    by blast
  from s5 obtain q1 where q1: "snd st4 = q1 # snd st5" "is_quote q1" by (rule rx_run_Cls_elim)
  from rx_run_at_least_Cls[OF s6] obtain v where
    v: "snd st5 = v @ snd st6" "n \<le> length v" "list_all ?nq v" by blast
  from s7 obtain q2 where q2: "snd st6 = q2 # snd st'" "is_quote q2" by (rule rx_run_Cls_elim)
  from w1 w2 w3 w4 q1 v q2 show ?thesis
    by (intro exI[of _ "w1 @ w2 @ w3 @ w4"] exI[of _ q1] exI[of _ v] exI[of _ q2]) simp
qed

lemma secret_match_shape:
  assumes p: "p \<in> set patterns_secrets" and m: "m \<in> set (js_match (regex p) code)"
  shows "\<exists>h q1 v q2. m = h @ q1 # v @ [q2] \<and>
           list_all (\<lambda>c. \<not> is_quote c) h \<and> is_quote q1 \<and> is_quote q2 \<and>
           list_all (\<lambda>c. \<not> is_quote c) v \<and> 4 \<le> length v \<and> sublist m code"
proof -
  from secrets_keywords[OF p] obtain kw n where r: "regex p = secret_rx kw n"
    and kw: "rx_only (\<lambda>c. \<not> is_quote c) kw" and n: "4 \<le> n" by blast
  from match_all_sound[of m "regex p" None code] m obtain p' s' st where
    st: "st \<in> set (rx_run (regex p) (p', s'))" and s': "s' = m @ snd st" and suf: "suffix s' code"
    by (auto simp: js_match_def)
  from secret_rx_shape[OF kw st[unfolded r]] obtain h q1 v q2 where
    sh: "s' = h @ q1 # v @ q2 # snd st" and
    props: "list_all (\<lambda>c. \<not> is_quote c) h" "is_quote q1" "is_quote q2"
      "list_all (\<lambda>c. \<not> is_quote c) v" "n \<le> length v" by auto
  from sh s' have mm: "m = h @ q1 # v @ [q2]" by simp
  from suf s' obtain zs where "code = zs @ m @ snd st" by (auto simp: suffix_def)
  then have "sublist m code" by (auto simp: sublist_def)
  with mm props n show ?thesis by (intro exI[of _ h] exI[of _ q1] exI[of _ v] exI[of _ q2]) simp
qed

lemma for_patterns_set:
  "v \<in> set (for_patterns table code mk) \<longleftrightarrow>
   (\<exists>p \<in> set table. js_match (regex p) code \<noteq> [] \<and> v = mk p (js_match (regex p) code))"
proof -
  have "\<And>p. v \<in> set (case js_match (regex p) code of [] \<Rightarrow> []
                            | m # ms \<Rightarrow> [mk p (m # ms)]) \<longleftrightarrow>
     js_match (regex p) code \<noteq> [] \<and> v = mk p (js_match (regex p) code)"
  proof -
    fix p show "v \<in> set (case js_match (regex p) code of [] \<Rightarrow> []
                            | m # ms \<Rightarrow> [mk p (m # ms)]) \<longleftrightarrow>
     js_match (regex p) code \<noteq> [] \<and> v = mk p (js_match (regex p) code)"
      by (cases "js_match (regex p) code") simp_all
  qed
  then show ?thesis by (simp add: for_patterns_def)
qed

lemma other_checks_vtype:
  "v \<in> set (checkSQLInjection code) \<Longrightarrow> vtype v = ''sql_injection''"
  "v \<in> set (checkXSS code) \<Longrightarrow> vtype v = ''xss_vulnerability''"
  "v \<in> set (checkCommandInjection code) \<Longrightarrow> vtype v = ''command_injection''"
  "v \<in> set (checkHashMapViolations code) \<Longrightarrow> vtype v = ''hashmap_performance''"
  "v \<in> set (checkPerformanceAntiPatterns code) \<Longrightarrow> vtype v = ''performance_antipattern''"
  by (auto simp: for_patterns_set checkSQLInjection_def checkXSS_def checkCommandInjection_def
        checkHashMapViolations_def checkPerformanceAntiPatterns_def)

lemma secret_violations_only_from_checkSecrets:
  assumes "v \<in> set (collect_violations options code)" and "vtype v = ''hardcoded_secret''"
  shows "v \<in> set (checkSecrets code)"
  using assms other_checks_vtype[of v code]
  by (auto simp: collect_violations_def split: if_splits)

lemma secrets_need_text:
  assumes "p \<in> set patterns_secrets"
  shows "js_match (regex p) [] = []"
proof (rule ccontr)
  assume "js_match (regex p) [] \<noteq> []"
  then obtain m where "m \<in> set (js_match (regex p) [])"
    by (cases "js_match (regex p) []") auto
  from secret_match_shape[OF assms this] show False by auto
qed

text \<open>
  Claim C6, as the code has it. With the security checks enabled, for every text in which
  one of the secret patterns has a match, \<open>validatePre\<close> returns \<open>passed = false\<close> with a
  \<open>CRITICAL\<close> violation of type \<open>hardcoded_secret\<close> for that pattern. Every entry of the
  \<open>matches\<close> of such a violation stems from a piece \<open>h q1 value q2\<close> of the text, with
  \<open>value\<close> a quoted literal of at least 4 code units, and is that piece with the literal
  masked (two leading code units, \<open>min (length - 4) 20\<close> asterisks, two trailing code units,
  in double quotes) when the literal is longer than 4; a literal of exactly 4 code units
  is left as it is.
\<close>

theorem secrets_detected_and_masked:
  assumes sec: "enableSecurityChecks options"
    and p: "p \<in> set patterns_secrets"
    and hit: "js_match (regex p) code \<noteq> []"
  shows "\<not> pre_ok (fst (validatePre options elapsed (Some code) m)) \<and>
    (\<exists>v \<in> set (violations (fst (validatePre options elapsed (Some code) m))).
        vtype v = ''hardcoded_secret'' \<and> severity v = ''CRITICAL'' \<and>
        pattern v = Some (pat_name p)) \<and>
    (\<forall>v \<in> set (violations (fst (validatePre options elapsed (Some code) m))).
        vtype v = ''hardcoded_secret'' \<longrightarrow>
        (\<exists>xs. matches v = Some xs \<and>
           (\<forall>x \<in> set xs. \<exists>h q1 val q2.
               sublist (h @ q1 # val @ [q2]) code \<and> is_quote q1 \<and> is_quote q2 \<and>
               list_all (\<lambda>c. \<not> is_quote c) h \<and> list_all (\<lambda>c. \<not> is_quote c) val \<and>
               4 \<le> length val \<and> x = masked_form h q1 val q2)))"
proof -
  let ?vs = "collect_violations options code"
  let ?v = "\<lparr> vtype = ''hardcoded_secret'', pattern = Some (pat_name p),
        severity = ''CRITICAL'', message = ''Hardcoded '' @ pat_name p @ '' detected'',
        matches = Some (map maskSecret (js_match (regex p) code)),
        suggestion = ''Use environment variables: process.env.SECRET_NAME'' \<rparr>"
  from hit secrets_need_text[OF p] have ne: "code \<noteq> []" by auto
  then have vs: "violations (fst (validatePre options elapsed (Some code) m)) = ?vs"
    and ok: "pre_ok (fst (validatePre options elapsed (Some code) m)) =
       (if pv_strictMode options then ?vs = []
        else filter (\<lambda>v. severity v = ''CRITICAL'') ?vs = [])"
    by (simp_all add: validatePre_def Let_def)
  from p hit have "?v \<in> set (checkSecrets code)"
    unfolding checkSecrets_def for_patterns_set by blast
  with sec have in_vs: "?v \<in> set ?vs" by (simp add: collect_violations_def)
  then have "?vs \<noteq> []" by auto
  moreover from in_vs have "?v \<in> set (filter (\<lambda>v. severity v = ''CRITICAL'') ?vs)" by simp
  then have "filter (\<lambda>v. severity v = ''CRITICAL'') ?vs \<noteq> []" by (metis empty_iff empty_set)
  ultimately have notok: "\<not> pre_ok (fst (validatePre options elapsed (Some code) m))"
    using ok by simp
  have found: "\<exists>v \<in> set ?vs. vtype v = ''hardcoded_secret'' \<and> severity v = ''CRITICAL'' \<and>
        pattern v = Some (pat_name p)"
    using in_vs by (intro bexI[of _ ?v]) simp_all
  have masked: "\<forall>v \<in> set ?vs. vtype v = ''hardcoded_secret'' \<longrightarrow>
        (\<exists>xs. matches v = Some xs \<and>
           (\<forall>x \<in> set xs. \<exists>h q1 val q2.
               sublist (h @ q1 # val @ [q2]) code \<and> is_quote q1 \<and> is_quote q2 \<and>
               list_all (\<lambda>c. \<not> is_quote c) h \<and> list_all (\<lambda>c. \<not> is_quote c) val \<and>
               4 \<le> length val \<and> x = masked_form h q1 val q2))"
  proof (intro ballI impI)
    fix v assume v: "v \<in> set ?vs" and t: "vtype v = ''hardcoded_secret''"
    from secret_violations_only_from_checkSecrets[OF v t] obtain p' where
      p': "p' \<in> set patterns_secrets"
      and mv: "matches v = Some (map maskSecret (js_match (regex p') code))"
      unfolding checkSecrets_def for_patterns_set by auto
    have "\<forall>x \<in> set (map maskSecret (js_match (regex p') code)). \<exists>h q1 val q2.
               sublist (h @ q1 # val @ [q2]) code \<and> is_quote q1 \<and> is_quote q2 \<and>
               list_all (\<lambda>c. \<not> is_quote c) h \<and> list_all (\<lambda>c. \<not> is_quote c) val \<and>
               4 \<le> length val \<and> x = masked_form h q1 val q2"
    proof
      fix x assume "x \<in> set (map maskSecret (js_match (regex p') code))"
      then obtain raw where raw: "raw \<in> set (js_match (regex p') code)" and x: "x = maskSecret raw"
        by auto
      from secret_match_shape[OF p' raw] obtain h q1 val q2 where
        sh: "raw = h @ q1 # val @ [q2]" "list_all (\<lambda>c. \<not> is_quote c) h" "is_quote q1"
          "is_quote q2" "list_all (\<lambda>c. \<not> is_quote c) val" "4 \<le> length val"
          "sublist raw code" by blast
      from maskSecret_shape[OF sh(2,3,4,5,6)] x sh(1)
      have "x = masked_form h q1 val q2" by (simp add: masked_form_def)
      with sh show "\<exists>h q1 val q2.
               sublist (h @ q1 # val @ [q2]) code \<and> is_quote q1 \<and> is_quote q2 \<and>
               list_all (\<lambda>c. \<not> is_quote c) h \<and> list_all (\<lambda>c. \<not> is_quote c) val \<and>
               4 \<le> length val \<and> x = masked_form h q1 val q2"
        by (intro exI[of _ h] exI[of _ q1] exI[of _ "val"] exI[of _ q2]) simp
    qed
    with mv show "\<exists>xs. matches v = Some xs \<and>
           (\<forall>x \<in> set xs. \<exists>h q1 val q2.
               sublist (h @ q1 # val @ [q2]) code \<and> is_quote q1 \<and> is_quote q2 \<and>
               list_all (\<lambda>c. \<not> is_quote c) h \<and> list_all (\<lambda>c. \<not> is_quote c) val \<and>
               4 \<le> length val \<and> x = masked_form h q1 val q2)"
      by blast
  qed
  from notok found masked vs show ?thesis by simp
qed

theorem secrets_detected_and_masked_witness:
  "enableSecurityChecks default_validator_options \<and>
   patterns_secrets ! 0 \<in> set patterns_secrets \<and>
   js_match (regex (patterns_secrets ! 0)) ''pwd=\"abcdefgh\"'' \<noteq> [] \<and>
   \<not> pre_ok (fst (validatePre default_validator_options 1
          (Some ''pwd=\"abcdefgh\"'') metrics0)) \<and>
   map matches (violations (fst (validatePre default_validator_options 1
          (Some ''pwd=\"abcdefgh\"'') metrics0))) = [Some [''pwd=\"ab****gh\"'']]"
proof -
  have h1: "enableSecurityChecks default_validator_options"
    by (simp add: default_validator_options_def)
  have h2: "patterns_secrets ! 0 \<in> set patterns_secrets"
    by (rule nth_mem) (simp add: patterns_secrets_def)
  have "js_match (regex (patterns_secrets ! 0)) ''pwd=\"abcdefgh\"'' = [''pwd=\"abcdefgh\"'']"
    by code_simp
  then have h3: "js_match (regex (patterns_secrets ! 0)) ''pwd=\"abcdefgh\"'' \<noteq> []"
    by simp
  have e: "map matches (violations (fst (validatePre default_validator_options 1
          (Some ''pwd=\"abcdefgh\"'') metrics0))) = [Some [''pwd=\"ab****gh\"'']]"
    by code_simp
  from secrets_detected_and_masked[OF h1 h2 h3, of 1 metrics0] h1 h2 h3 e
  show ?thesis by simp
qed

text \<open>
  Claim C6 as stated fails for a literal of exactly 4 code units: \<open>_maskSecret\<close> returns
  the match unchanged, and the violation's \<open>matches\<close> hold the original literal.
\<close>

theorem short_secret_is_not_masked:
  "map matches (violations (fst (validatePre default_validator_options 1
      (Some ''pwd=\"abcd\"'') metrics0))) = [Some [''pwd=\"abcd\"'']]"
  by code_simp

lemma empty_code_clean:
  "\<not> async_without_handling []" "\<not> hardcoded_literal_found []" "\<not> leak_pattern_found []"
  by code_simp+

lemma validatePost_nonempty:
  assumes "enableQualityChecks options" and "extractCode result = Some code" and "code \<noteq> []"
  shows "qualityScore (fst (validatePost options elapsed result m)) =
           100 - (if async_without_handling code then 15 else 0)
               - (if hardcoded_literal_found code then 5 else 0)
               - (if leak_pattern_found code then 20 else 0)"
    and "post_ok (fst (validatePost options elapsed result m)) =
           (70 \<le> 100 - (if async_without_handling code then (15::int) else 0)
               - (if hardcoded_literal_found code then 5 else 0)
               - (if leak_pattern_found code then 20 else 0))"
    and "map qi_type (post_result_issues (fst (validatePost options elapsed result m))) =
           (if async_without_handling code then [''missing_error_handling''] else []) @
           (if hardcoded_literal_found code then [''hardcoded_values''] else []) @
           (if leak_pattern_found code then [''potential_memory_leak''] else [])"
  using assms
  by (auto simp: validatePost_def Let_def some_nonempty_def checkErrorHandling_def
        checkHardcodedValues_def checkMemoryLeaks_def async_without_handling_def
        hardcoded_literal_found_def leak_pattern_found_def)

text \<open>
  Claim C9, as the code has it. The three checks stand behind
  \<open>if (code && this.options.enableQualityChecks)\<close>. With the quality checks enabled (the
  default) and a code string extracted from the input, the quality score starts at 100 and
  loses exactly 15 for async code without \<open>try/catch\<close> or \<open>.catch\<close>, exactly 5 for
  hardcoded literals and exactly 20 for a leak pattern; it is floored at 0, and \<open>passed\<close>
  holds iff the score is at least 70. One issue is reported per deduction.
\<close>

theorem validatePost_deductions:
  assumes en: "enableQualityChecks options" and ex: "extractCode result = Some code"
  shows "qualityScore (fst (validatePost options elapsed result m)) =
           max 0 (100 - (if async_without_handling code then 15 else 0)
                      - (if hardcoded_literal_found code then 5 else 0)
                      - (if leak_pattern_found code then 20 else 0)) \<and>
         post_ok (fst (validatePost options elapsed result m)) =
           (70 \<le> qualityScore (fst (validatePost options elapsed result m))) \<and>
         map qi_type (post_result_issues (fst (validatePost options elapsed result m))) =
           (if async_without_handling code then [''missing_error_handling''] else []) @
           (if hardcoded_literal_found code then [''hardcoded_values''] else []) @
           (if leak_pattern_found code then [''potential_memory_leak''] else [])"
proof (cases "code = []")
  case True
  with ex have "fst (validatePost options elapsed result m) =
      \<lparr> post_ok = True, qualityScore = 100, post_result_issues = [],
        post_responseTime = elapsed \<rparr>"
    by (simp add: validatePost_def Let_def some_nonempty_def)
  with True empty_code_clean show ?thesis by simp
next
  case False
  note v = validatePost_nonempty[OF en ex False, of elapsed m]
  show ?thesis unfolding v by auto
qed

theorem validatePost_deductions_witness:
  "enableQualityChecks default_validator_options \<and>
   extractCode (PostObject (Some flawed_code) None None) = Some flawed_code \<and>
   async_without_handling flawed_code \<and> hardcoded_literal_found flawed_code \<and>
   leak_pattern_found flawed_code \<and>
   qualityScore (fst (validatePost default_validator_options 1
      (PostObject (Some flawed_code) None None) metrics0)) = 60 \<and>
   \<not> post_ok (fst (validatePost default_validator_options 1
      (PostObject (Some flawed_code) None None) metrics0)) \<and>
   map qi_type (post_result_issues (fst (validatePost default_validator_options 1
      (PostObject (Some flawed_code) None None) metrics0))) =
     [''missing_error_handling'', ''hardcoded_values'', ''potential_memory_leak'']"
proof -
  have h1: "enableQualityChecks default_validator_options"
    by (simp add: default_validator_options_def)
  have h2: "extractCode (PostObject (Some flawed_code) None None) = Some flawed_code"
    by (simp add: extractCode_def some_nonempty_def flawed_code_def)
  have c: "async_without_handling flawed_code" "hardcoded_literal_found flawed_code"
    "leak_pattern_found flawed_code"
    by code_simp+
  from validatePost_deductions[OF h1 h2, of 1 metrics0] h1 h2 c
  show ?thesis by simp
qed

text \<open>With the quality checks disabled no check runs, whatever the code holds.\<close>

lemma validatePost_checks_off:
  "\<not> enableQualityChecks options \<Longrightarrow>
   fst (validatePost options elapsed result m) =
     \<lparr> post_ok = True, qualityScore = 100, post_result_issues = [],
       post_responseTime = elapsed \<rparr>"
  by (simp add: validatePost_def Let_def)

lemma leaky_code_conditions:
  "async_without_handling leaky_code" "\<not> hardcoded_literal_found leaky_code"
  "leak_pattern_found leaky_code"
  by code_simp+

text \<open>
  Claim C9 as stated fails for a validator built with \<open>enableQualityChecks: false\<close>: code
  holding \<open>await\<close> without error handling and \<open>setInterval\<close> without \<open>clearInterval\<close> is
  extracted, and yet nothing is deducted: the score is 100 and the result passes, where the
  claim has 100 - 15 - 20 = 65 and \<open>passed = false\<close>.
\<close>

theorem disabled_quality_checks_deduct_nothing:
  "extractCode (PostObject (Some leaky_code) None None) = Some leaky_code \<and>
   async_without_handling leaky_code \<and> leak_pattern_found leaky_code \<and>
   qualityScore (fst (validatePost quality_off_options 1
      (PostObject (Some leaky_code) None None) metrics0)) = 100 \<and>
   post_ok (fst (validatePost quality_off_options 1
      (PostObject (Some leaky_code) None None) metrics0)) \<and>
   post_result_issues (fst (validatePost quality_off_options 1
      (PostObject (Some leaky_code) None None) metrics0)) = []"
proof -
  have off: "\<not> enableQualityChecks quality_off_options"
    by (simp add: quality_off_options_def)
  have ex: "extractCode (PostObject (Some leaky_code) None None) = Some leaky_code"
    by (simp add: extractCode_def some_nonempty_def leaky_code_def)
  from validatePost_checks_off[OF off, of 1 "PostObject (Some leaky_code) None None" metrics0]
    ex leaky_code_conditions
  show ?thesis by simp
qed

section \<open>Properties of truth scoring\<close>

lemma round3_exact: "x * 1000 = of_int k \<Longrightarrow> round3 x = x"
  unfolding round3_def by simp

lemma security_score_grid:
  "\<exists>k::int. calculateSecurityScore preResult * 500 = of_int k"
proof -
  let ?c = "count_severity ''CRITICAL'' (violations preResult)"
  let ?h = "count_severity ''HIGH'' (violations preResult)"
  let ?m = "count_severity ''MEDIUM'' (violations preResult)"
  let ?x = "1 - of_nat ?c * (3 / 10) - of_nat ?h * (15 / 100) - of_nat ?m * (5 / 100) :: rat"
  have x: "?x * 500 = of_int (500 - 150 * int ?c - 75 * int ?h - 25 * int ?m)"
    by (simp add: algebra_simps)
  have "max 0 ?x * 500 = of_int (max 0 (500 - 150 * int ?c - 75 * int ?h - 25 * int ?m))"
  proof (cases "0 \<le> ?x")
    case True
    then have "0 \<le> ?x * 500" by simp
    with x have "0 \<le> (500 - 150 * int ?c - 75 * int ?h - 25 * int ?m)"
      by (metis of_int_0_le_iff)
    with True x show ?thesis by (simp add: max_def)
  next
    case False
    then have "?x * 500 < 0" by (simp add: mult_less_0_iff)
    with x have "(500 - 150 * int ?c - 75 * int ?h - 25 * int ?m) < 0"
      by (metis of_int_less_0_iff)
    with False show ?thesis by (simp add: max_def)
  qed
  then have grid: "\<exists>k::int. max 0 ?x * 500 = of_int k" by blast
  show ?thesis
  proof (cases "pre_ok preResult \<and> violations preResult = []")
    case True
    then have "calculateSecurityScore preResult * 500 = of_int 500"
      by (simp add: calculateSecurityScore_def)
    then show ?thesis by blast
  next
    case False
    then have "calculateSecurityScore preResult = max 0 ?x"
      unfolding calculateSecurityScore_def Let_def by (simp only: if_False)
    with grid show ?thesis by simp
  qed
qed

text \<open>The composite score, for every text: the performance component is always 0.8,
  and rounding to three decimals changes nothing.\<close>

lemma calculateScore_composite:
  "overallScore (fst (calculateScore preElapsed postElapsed now code t)) =
     calculateSecurityScore
       (fst (validatePre default_validator_options preElapsed (Some code) (validator_metrics t)))
       * (5 / 10) +
     of_int (qualityScore (fst (validatePost default_validator_options postElapsed
        (PostObject (Some code) None None)
        (snd (validatePre default_validator_options preElapsed (Some code)
           (validator_metrics t)))))) / 100 * (3 / 10) +
     (8 / 10) * (2 / 10)"
proof -
  let ?pre = "validatePre default_validator_options preElapsed (Some code) (validator_metrics t)"
  let ?post = "validatePost default_validator_options postElapsed
        (PostObject (Some code) None None) (snd ?pre)"
  let ?sec = "calculateSecurityScore (fst ?pre)"
  let ?q = "qualityScore (fst ?post)"
  let ?overall = "?sec * (5 / 10) + of_int ?q / 100 * (3 / 10) + (8 / 10) * (2 / 10)"
  have pc: "performanceCompliant (fst ?pre) = None"
    by (simp add: validatePre_def Let_def split: option.splits)
  have o: "overallScore (fst (calculateScore preElapsed postElapsed now code t)) = round3 ?overall"
    using pc by (simp add: calculateScore_def Let_def case_prod_beta)
  from security_score_grid obtain k :: int where k: "?sec * 500 = of_int k" by blast
  have "?overall * 1000 = ?sec * 500 + of_int (3 * ?q) + 160" by simp
  also have "\<dots> = of_int (k + 3 * ?q + 160)" using k by simp
  finally have "round3 ?overall = ?overall" by (rule round3_exact)
  with o show ?thesis by simp
qed

lemma clean_code_scores:
  assumes "violations (fst (validatePre default_validator_options preElapsed (Some code)
              (validator_metrics t))) = []"
    and "qualityScore (fst (validatePost default_validator_options postElapsed
        (PostObject (Some code) None None)
        (snd (validatePre default_validator_options preElapsed (Some code)
           (validator_metrics t))))) = 100"
  shows "overallScore (fst (calculateScore preElapsed postElapsed now code t)) = 96 / 100"
proof -
  let ?pre = "validatePre default_validator_options preElapsed (Some code) (validator_metrics t)"
  have "pre_ok (fst ?pre)" using assms(1)
    by (auto simp: validatePre_def Let_def default_validator_options_def split: if_splits)
  with assms(1) have "calculateSecurityScore (fst ?pre) = 1"
    by (simp add: calculateSecurityScore_def)
  with assms(2) show ?thesis unfolding calculateScore_composite by simp
qed

lemma clean_eval:
  "fst (validatePre default_validator_options (1 / 10) (Some ''const x = 1;'') metrics0) =
     \<lparr> pre_ok = True, violations = [], criticalCount = Some 0, totalCount = Some 0,
       responseTime = 1 / 10, performanceCompliant = None \<rparr>"
  by code_simp

lemma clean_post_eval:
  "fst (validatePost default_validator_options (1 / 10)
      (PostObject (Some ''const x = 1;'') None None) m) =
     \<lparr> post_ok = True, qualityScore = 100, post_result_issues = [],
       post_responseTime = 1 / 10 \<rparr>"
  by code_simp

text \<open>
  Claim C1 at clean code whose pre-validation took 0.1 ms, within the 1 ms budget: no
  violation, quality score 100, status \<open>excellent\<close>, yet \<open>overallScore = 0.96\<close> and not 1.0.
  The result of \<open>PatternValidator.validatePre\<close> has no \<open>performanceCompliant\<close> key, so the
  performance component is 0.8 whatever the latency.
\<close>

theorem clean_compliant_code_scores_096:
  "overallScore (fst (calculateScore (1 / 10) (1 / 10) 0 ''const x = 1;'' truth0)) = 96 / 100 \<and>
   performance (score_components
      (fst (calculateScore (1 / 10) (1 / 10) 0 ''const x = 1;'' truth0))) = 8 / 10 \<and>
   status (fst (calculateScore (1 / 10) (1 / 10) 0 ''const x = 1;'' truth0)) = ''excellent'' \<and>
   score_violations (fst (calculateScore (1 / 10) (1 / 10) 0 ''const x = 1;'' truth0)) = []"
  by (intro conjI; code_simp)

end
